theory Spec2Isabelle
  imports Main "HOL-Library.Word"
begin


section \<open>The Noise handshake of \<^verbatim>\<open>handshake.go\<close>\<close>

subsection \<open>Data\<close>

type_synonym byte = "8 word"
type_synonym bytes = "byte list"

text \<open>A Go \<^verbatim>\<open>error\<close> value handed back by a collaborator (socket, protobuf, random
  source, database driver); only its identity matters here.\<close>
type_synonym cause = string

text \<open>\<^verbatim>\<open>keys.KeyPair\<close>: the public and the private 32-byte arrays.\<close>
record KeyPair =
  Pub :: bytes
  Priv :: bytes

text \<open>Modelled from the spec: \<^verbatim>\<open>keys.PreKey\<close> is declared in the package
  \<^verbatim>\<open>util/keys\<close>, which is not among the sources. Section 3 describes a signed prekey as a
  key pair with an id and a signature by the identity key.\<close>
record PreKey =
  PreKeyPair :: KeyPair
  KeyID :: "32 word"
  PreKeySignature :: "bytes option"

text \<open>\<^verbatim>\<open>store.Device\<close> (\<^verbatim>\<open>store/store.go\<close>, lines 89-114): the fields that
  \<^verbatim>\<open>doHandshake\<close> reads or writes, and the display strings. A nil pointer or nil slice is
  \<open>None\<close>. The fields \<^verbatim>\<open>ID\<close>, \<^verbatim>\<open>Account\<close>, \<^verbatim>\<open>Log\<close> and the capability stores have types
  declared outside the sources and are not touched by the handshake.\<close>
record Device =
  NoiseKey :: "KeyPair option"
  IdentityKey :: "KeyPair option"
  SignedPreKey :: "PreKey option"
  RegistrationID :: "32 word"
  AdvSecretKey :: "bytes option"
  Platform :: string
  BusinessName :: string
  PushName :: string
  Initialized :: bool

text \<open>The fields of \<^verbatim>\<open>Client\<close> that \<^verbatim>\<open>doHandshake\<close> uses; \<open>'ns\<close> is the type of the
  noise socket returned by \<^verbatim>\<open>nh.Finish\<close>.\<close>
record 'ns Client =
  Store :: Device
  socket :: "'ns option"
  isExpectedDisconnect :: bool

text \<open>The protobuf messages read by the handshake. An absent field is \<open>None\<close>; the
  generated getters are nil-safe.\<close>
record ServerHello =
  Ephemeral :: "bytes option"
  Static :: "bytes option"
  Payload :: "bytes option"

record HandshakeMessage =
  ServerHelloField :: "ServerHello option"

record NoiseCertificate =
  Details :: "bytes option"
  Signature :: "bytes option"

record NoiseCertificateDetails =
  Key :: "bytes option"

definition GetServerHello :: "HandshakeMessage \<Rightarrow> ServerHello option" where
  "GetServerHello m = ServerHelloField m"

definition GetEphemeral :: "ServerHello option \<Rightarrow> bytes option" where
  "GetEphemeral sh = (case sh of None \<Rightarrow> None | Some h \<Rightarrow> Ephemeral h)"

definition GetStatic :: "ServerHello option \<Rightarrow> bytes option" where
  "GetStatic sh = (case sh of None \<Rightarrow> None | Some h \<Rightarrow> Static h)"

definition GetPayload :: "ServerHello option \<Rightarrow> bytes option" where
  "GetPayload sh = (case sh of None \<Rightarrow> None | Some h \<Rightarrow> Payload h)"

text \<open>Go's \<^verbatim>\<open>len\<close> of a slice that may be nil, and \<^verbatim>\<open>bytes.Equal\<close>, which treats a nil
  slice as the empty one.\<close>
definition len :: "bytes option \<Rightarrow> nat" where
  "len b = (case b of None \<Rightarrow> 0 | Some xs \<Rightarrow> length xs)"

definition slice_contents :: "bytes option \<Rightarrow> bytes" where
  "slice_contents b = (case b of None \<Rightarrow> [] | Some xs \<Rightarrow> xs)"

definition bytes_Equal :: "bytes option \<Rightarrow> bytes option \<Rightarrow> bool" where
  "bytes_Equal a b = (slice_contents a = slice_contents b)"

text \<open>One constructor for each \<^verbatim>\<open>fmt.Errorf\<close> of \<^verbatim>\<open>doHandshake\<close>, in source order, with
  the wrapped cause where the message has \<^verbatim>\<open>%w\<close>.\<close>
datatype hs_error =
    ErrMarshalHandshake cause
  | ErrSendHandshake cause
  | ErrUnmarshalResponse cause
  | ErrMissingParts
  | ErrMixEphemeral cause
  | ErrDecryptStatic cause
  | ErrStaticLength nat
  | ErrMixStatic cause
  | ErrDecryptCertificate cause
  | ErrUnmarshalCertificate cause
  | ErrMissingCertParts
  | ErrUnmarshalCertDetails cause
  | ErrCertKeyMismatch
  | ErrMixNoiseKey cause
  | ErrMarshalClientPayload cause
  | ErrMarshalFinish cause
  | ErrSendFinish cause
  | ErrCreateNoiseSocket cause
  | ErrGenerateAdvSecret cause

text \<open>The calls that \<^verbatim>\<open>doHandshake\<close> makes on its collaborators, logged in program
  order. A call is logged when it is made, whether it succeeds or not.\<close>
datatype event =
    EvStart bytes bytes
  | EvAuthenticate bytes
  | EvMixSharedSecretIntoKey bytes bytes
  | EvDecrypt bytes
  | EvEncrypt bytes
  | EvSendAndReceiveFrame bytes
  | EvSendFrame bytes
  | EvFinish
  | EvNewKeyPair
  | EvCreateSignedPreKey
  | EvUint32
  | EvRandRead

text \<open>The collaborators of \<^verbatim>\<open>doHandshake\<close>, none of which is among the sources: the
  noise handshake object of package \<^verbatim>\<open>socket\<close> (its state has type \<open>'nh\<close> and every
  method returns the new state), the frame socket, protobuf (un)marshalling, key
  generation and the two random sources. \<open>NewKeyPair n\<close> is the result of the
  \<open>n\<close>-th call of \<^verbatim>\<open>keys.NewKeyPair\<close> in this run, \<open>rand_Read n\<close> the buffer contents and
  the error of \<^verbatim>\<open>rand.Read\<close> on a buffer of \<open>n\<close> bytes.\<close>
record ('nh, 'ns) hs_env =
  NoiseStartPattern :: bytes
  NewNoiseHandshake :: 'nh
  nh_Start :: "'nh \<Rightarrow> bytes \<Rightarrow> bytes \<Rightarrow> 'nh"
  nh_Authenticate :: "'nh \<Rightarrow> bytes \<Rightarrow> 'nh"
  nh_MixSharedSecretIntoKey :: "'nh \<Rightarrow> bytes \<Rightarrow> bytes \<Rightarrow> cause + 'nh"
  nh_Decrypt :: "'nh \<Rightarrow> bytes \<Rightarrow> cause + (bytes \<times> 'nh)"
  nh_Encrypt :: "'nh \<Rightarrow> bytes \<Rightarrow> bytes \<times> 'nh"
  nh_Finish :: "'nh \<Rightarrow> cause + 'ns"
  fs_Header :: bytes
  fs_SendAndReceiveFrame :: "bytes \<Rightarrow> cause + bytes"
  fs_SendFrame :: "bytes \<Rightarrow> cause option"
  Marshal_ClientHello :: "bytes \<Rightarrow> cause + bytes"
  Unmarshal_HandshakeMessage :: "bytes \<Rightarrow> cause + HandshakeMessage"
  Unmarshal_NoiseCertificate :: "bytes \<Rightarrow> cause + NoiseCertificate"
  Unmarshal_NoiseCertificateDetails :: "bytes \<Rightarrow> cause + NoiseCertificateDetails"
  Marshal_ClientPayload :: "Device \<Rightarrow> cause + bytes"
  Marshal_ClientFinish :: "bytes \<Rightarrow> bytes \<Rightarrow> cause + bytes"
  NewKeyPair :: "nat \<Rightarrow> KeyPair"
  CreateSignedPreKey :: "KeyPair \<Rightarrow> 32 word \<Rightarrow> PreKey"
  Uint32 :: "32 word"
  rand_Read :: "nat \<Rightarrow> bytes \<times> cause option"

subsection \<open>\<^verbatim>\<open>doHandshake\<close>\<close>

text \<open>Lines 25-68: the client hello, the shape check of the server hello, the two mixes
  with the ephemeral private key and the decryption of the server static key. On success
  the result holds the handshake state, the decrypted static key, the server ephemeral
  and the certificate ciphertext.\<close>
definition hs_server_hello ::
  "('nh, 'ns) hs_env \<Rightarrow> KeyPair \<Rightarrow> (hs_error + ('nh \<times> bytes \<times> bytes \<times> bytes)) \<times> event list" where
  "hs_server_hello E ephemeralKP =
    (let nh0 = nh_Start E (NewNoiseHandshake E) (NoiseStartPattern E) (fs_Header E);
         nh1 = nh_Authenticate E nh0 (Pub ephemeralKP);
         ev0 = [EvStart (NoiseStartPattern E) (fs_Header E), EvAuthenticate (Pub ephemeralKP)]
     in case Marshal_ClientHello E (Pub ephemeralKP) of
          Inl e \<Rightarrow> (Inl (ErrMarshalHandshake e), ev0)
        | Inr data \<Rightarrow>
      (case fs_SendAndReceiveFrame E data of
          Inl e \<Rightarrow> (Inl (ErrSendHandshake e), ev0 @ [EvSendAndReceiveFrame data])
        | Inr resp \<Rightarrow>
      (case Unmarshal_HandshakeMessage E resp of
          Inl e \<Rightarrow> (Inl (ErrUnmarshalResponse e), ev0 @ [EvSendAndReceiveFrame data])
        | Inr handshakeResponse \<Rightarrow>
      (let serverEphemeral = GetEphemeral (GetServerHello handshakeResponse);
           serverStaticCiphertext = GetStatic (GetServerHello handshakeResponse);
           certificateCiphertext = GetPayload (GetServerHello handshakeResponse);
           ev1 = ev0 @ [EvSendAndReceiveFrame data]
       in if len serverEphemeral \<noteq> 32 \<or> serverStaticCiphertext = None
             \<or> certificateCiphertext = None
          then (Inl ErrMissingParts, ev1)
          else
      (let serverEphemeralArr = slice_contents serverEphemeral;
           nh2 = nh_Authenticate E nh1 serverEphemeralArr;
           ev2 = ev1 @ [EvAuthenticate serverEphemeralArr,
                        EvMixSharedSecretIntoKey (Priv ephemeralKP) serverEphemeralArr]
       in case nh_MixSharedSecretIntoKey E nh2 (Priv ephemeralKP) serverEphemeralArr of
            Inl e \<Rightarrow> (Inl (ErrMixEphemeral e), ev2)
          | Inr nh3 \<Rightarrow>
      (let ev3 = ev2 @ [EvDecrypt (slice_contents serverStaticCiphertext)]
       in case nh_Decrypt E nh3 (slice_contents serverStaticCiphertext) of
            Inl e \<Rightarrow> (Inl (ErrDecryptStatic e), ev3)
          | Inr (staticDecrypted, nh4) \<Rightarrow>
              if length staticDecrypted \<noteq> 32
              then (Inl (ErrStaticLength (length staticDecrypted)), ev3)
              else
      (let ev4 = ev3 @ [EvMixSharedSecretIntoKey (Priv ephemeralKP) staticDecrypted]
       in case nh_MixSharedSecretIntoKey E nh4 (Priv ephemeralKP) staticDecrypted of
            Inl e \<Rightarrow> (Inl (ErrMixStatic e), ev4)
          | Inr nh5 \<Rightarrow>
              (Inr (nh5, staticDecrypted, serverEphemeralArr,
                    slice_contents certificateCiphertext), ev4))))))))"

text \<open>Lines 70-90: the certificate is decrypted and parsed, and its key is compared with
  the decrypted static key.\<close>
definition hs_certificate ::
  "('nh, 'ns) hs_env \<Rightarrow> 'nh \<Rightarrow> bytes \<Rightarrow> bytes \<Rightarrow> (hs_error + 'nh) \<times> event list" where
  "hs_certificate E nh certificateCiphertext staticDecrypted =
    (let ev = [EvDecrypt certificateCiphertext]
     in case nh_Decrypt E nh certificateCiphertext of
          Inl e \<Rightarrow> (Inl (ErrDecryptCertificate e), ev)
        | Inr (certDecrypted, nh') \<Rightarrow>
      (case Unmarshal_NoiseCertificate E certDecrypted of
          Inl e \<Rightarrow> (Inl (ErrUnmarshalCertificate e), ev)
        | Inr cert \<Rightarrow>
      (let certDetailsRaw = Details cert;
           certSignature = Signature cert
       in if certDetailsRaw = None \<or> certSignature = None
          then (Inl ErrMissingCertParts, ev)
          else
      (case Unmarshal_NoiseCertificateDetails E (slice_contents certDetailsRaw) of
          Inl e \<Rightarrow> (Inl (ErrUnmarshalCertDetails e), ev)
        | Inr certDetails \<Rightarrow>
            if \<not> bytes_Equal (Key certDetails) (Some staticDecrypted)
            then (Inl ErrCertKeyMismatch, ev)
            else (Inr nh', ev)))))"

text \<open>Lines 92-94: the noise key pair is created when the field is nil.\<close>
definition ensure_noise_key :: "('nh, 'ns) hs_env \<Rightarrow> Device \<Rightarrow> Device \<times> event list" where
  "ensure_noise_key E st =
     (if NoiseKey st = None then (st\<lparr>NoiseKey := Some (NewKeyPair E 0)\<rparr>, [EvNewKeyPair])
      else (st, []))"

text \<open>Lines 102-110: the identity key pair, the signed prekey and the registration id are
  created when missing; \<open>n\<close> is the number of calls of \<^verbatim>\<open>keys.NewKeyPair\<close> made before.
  The identity key is never nil where the signed prekey is created from it.\<close>
definition ensure_signal_keys ::
  "('nh, 'ns) hs_env \<Rightarrow> nat \<Rightarrow> Device \<Rightarrow> Device \<times> event list" where
  "ensure_signal_keys E n st =
     (let (st1, ev1) =
            (if IdentityKey st = None
             then (st\<lparr>IdentityKey := Some (NewKeyPair E n)\<rparr>, [EvNewKeyPair]) else (st, []));
          identityKey = (case IdentityKey st1 of Some k \<Rightarrow> k | None \<Rightarrow> NewKeyPair E n);
          (st2, ev2) =
            (if SignedPreKey st1 = None
             then (st1\<lparr>SignedPreKey := Some (CreateSignedPreKey E identityKey 1)\<rparr>,
                   [EvCreateSignedPreKey])
             else (st1, []));
          (st3, ev3) =
            (if RegistrationID st2 = 0
             then (st2\<lparr>RegistrationID := Uint32 E\<rparr>, [EvUint32]) else (st2, []))
      in (st3, ev1 @ ev2 @ ev3))"

text \<open>Lines 112-134: the client payload is marshalled and encrypted, the finish message
  is marshalled and sent, and the handshake is finished.\<close>
definition send_client_finish ::
  "('nh, 'ns) hs_env \<Rightarrow> 'nh \<Rightarrow> bytes \<Rightarrow> Device \<Rightarrow> (hs_error + 'ns) \<times> event list" where
  "send_client_finish E nh encryptedPubkey st =
     (case Marshal_ClientPayload E st of
        Inl e \<Rightarrow> (Inl (ErrMarshalClientPayload e), [])
      | Inr clientFinishPayloadBytes \<Rightarrow>
     (let (encryptedClientFinishPayload, nh') = nh_Encrypt E nh clientFinishPayloadBytes;
          ev1 = [EvEncrypt clientFinishPayloadBytes]
      in case Marshal_ClientFinish E encryptedPubkey encryptedClientFinishPayload of
           Inl e \<Rightarrow> (Inl (ErrMarshalFinish e), ev1)
         | Inr data \<Rightarrow>
     (case fs_SendFrame E data of
        Some e \<Rightarrow> (Inl (ErrSendFinish e), ev1 @ [EvSendFrame data])
      | None \<Rightarrow>
     (case nh_Finish E nh' of
        Inl e \<Rightarrow> (Inl (ErrCreateNoiseSocket e), ev1 @ [EvSendFrame data, EvFinish])
      | Inr ns \<Rightarrow> (Inr ns, ev1 @ [EvSendFrame data, EvFinish])))))"

text \<open>Lines 136-142: the adv secret is allocated and filled when the field is nil. The
  field keeps the buffer also when \<^verbatim>\<open>rand.Read\<close> fails.\<close>
definition ensure_adv_secret ::
  "('nh, 'ns) hs_env \<Rightarrow> Device \<Rightarrow> cause option \<times> Device \<times> event list" where
  "ensure_adv_secret E st =
     (if AdvSecretKey st = None
      then (case rand_Read E 32 of
              (buf, err) \<Rightarrow> (err, st\<lparr>AdvSecretKey := Some buf\<rparr>, [EvRandRead]))
      else (None, st, []))"

text \<open>Lines 92-147: the device keys are created where missing, the client finish message
  is encrypted and sent, the handshake is finished and the socket is assigned. The
  client is returned as the code leaves it, also on an error return.\<close>
definition hs_client_finish ::
  "('nh, 'ns) hs_env \<Rightarrow> 'ns Client \<Rightarrow> 'nh \<Rightarrow> bytes \<Rightarrow> hs_error option \<times> 'ns Client \<times> event list" where
  "hs_client_finish E cli nh serverEphemeralArr =
    (let (st1, ev1) = ensure_noise_key E (Store cli);
         noiseKey = (case NoiseKey st1 of Some k \<Rightarrow> k | None \<Rightarrow> NewKeyPair E 0);
         (encryptedPubkey, nh1) = nh_Encrypt E nh (Pub noiseKey);
         ev2 = ev1 @ [EvEncrypt (Pub noiseKey),
                      EvMixSharedSecretIntoKey (Priv noiseKey) serverEphemeralArr]
     in case nh_MixSharedSecretIntoKey E nh1 (Priv noiseKey) serverEphemeralArr of
          Inl e \<Rightarrow> (Some (ErrMixNoiseKey e), cli\<lparr>Store := st1\<rparr>, ev2)
        | Inr nh2 \<Rightarrow>
      (let (st2, ev3) =
             ensure_signal_keys E (if NoiseKey (Store cli) = None then 1 else 0) st1
       in case send_client_finish E nh2 encryptedPubkey st2 of
            (Inl err, ev4) \<Rightarrow> (Some err, cli\<lparr>Store := st2\<rparr>, ev2 @ ev3 @ ev4)
          | (Inr ns, ev4) \<Rightarrow>
      (case ensure_adv_secret E st2 of
         (Some e, st3, ev5) \<Rightarrow>
           (Some (ErrGenerateAdvSecret e), cli\<lparr>Store := st3\<rparr>, ev2 @ ev3 @ ev4 @ ev5)
       | (None, st3, ev5) \<Rightarrow>
           (None, cli\<lparr>Store := st3, isExpectedDisconnect := False, socket := Some ns\<rparr>,
            ev2 @ ev3 @ ev4 @ ev5))))"

text \<open>\<^verbatim>\<open>doHandshake\<close> (lines 24-148): the error it returns (\<open>None\<close> for nil), the
  client as it is left, and the log of the calls made.\<close>
definition doHandshake ::
  "('nh, 'ns) hs_env \<Rightarrow> 'ns Client \<Rightarrow> KeyPair \<Rightarrow> hs_error option \<times> 'ns Client \<times> event list" where
  "doHandshake E cli ephemeralKP =
    (case hs_server_hello E ephemeralKP of
       (Inl err, ev1) \<Rightarrow> (Some err, cli, ev1)
     | (Inr (nh, staticDecrypted, serverEphemeralArr, certificateCiphertext), ev1) \<Rightarrow>
    (case hs_certificate E nh certificateCiphertext staticDecrypted of
       (Inl err, ev2) \<Rightarrow> (Some err, cli, ev1 @ ev2)
     | (Inr nh', ev2) \<Rightarrow>
    (case hs_client_finish E cli nh' serverEphemeralArr of
       (err, cli', ev3) \<Rightarrow> (err, cli', ev1 @ ev2 @ ev3))))"

subsection \<open>Predicates on errors and logs\<close>

text \<open>The errors returned up to and including the decryption of the server static
  ciphertext and the length check of its plaintext (lines 33-64).\<close>
definition fails_by_static_decrypt :: "hs_error \<Rightarrow> bool" where
  "fails_by_static_decrypt e = (case e of
      ErrMarshalHandshake _ \<Rightarrow> True | ErrSendHandshake _ \<Rightarrow> True | ErrUnmarshalResponse _ \<Rightarrow> True
    | ErrMissingParts \<Rightarrow> True | ErrMixEphemeral _ \<Rightarrow> True | ErrDecryptStatic _ \<Rightarrow> True
    | ErrStaticLength _ \<Rightarrow> True | _ \<Rightarrow> False)"

text \<open>\<open>precedes a b xs\<close>: the first occurrence of \<open>a\<close> in the log \<open>xs\<close> is followed,
  later, by an occurrence of \<open>b\<close>.\<close>
fun precedes :: "'a \<Rightarrow> 'a \<Rightarrow> 'a list \<Rightarrow> bool" where
  "precedes a b [] = False"
| "precedes a b (x # xs) = (if x = a then b \<in> set xs else precedes a b xs)"

subsection \<open>Sample runs\<close>

text \<open>A server that answers well: ciphers that leave the bytes as they are, fixed
  protobuf contents, and a certificate for the static key that the server sent.\<close>
definition demo_keypair :: "nat \<Rightarrow> KeyPair" where
  "demo_keypair n = \<lparr>Pub = replicate 32 (of_nat (20 + n)), Priv = replicate 32 (of_nat (40 + n))\<rparr>"

definition demo_env :: "(nat, nat) hs_env" where
  "demo_env = \<lparr>
     NoiseStartPattern = [1], NewNoiseHandshake = 0,
     nh_Start = (\<lambda>n p h. 0),
     nh_Authenticate = (\<lambda>n b. Suc n),
     nh_MixSharedSecretIntoKey = (\<lambda>n priv pub. Inr (Suc n)),
     nh_Decrypt = (\<lambda>n c. Inr (c, Suc n)),
     nh_Encrypt = (\<lambda>n p. (p, Suc n)),
     nh_Finish = (\<lambda>n. Inr n),
     fs_Header = [2],
     fs_SendAndReceiveFrame = (\<lambda>d. Inr [9]),
     fs_SendFrame = (\<lambda>d. None),
     Marshal_ClientHello = (\<lambda>p. Inr p),
     Unmarshal_HandshakeMessage = (\<lambda>r. Inr \<lparr>ServerHelloField =
        Some \<lparr>Ephemeral = Some (replicate 32 3), Static = Some (replicate 32 4), Payload = Some [5]\<rparr>\<rparr>),
     Unmarshal_NoiseCertificate = (\<lambda>c. Inr \<lparr>Details = Some [6], Signature = Some [7]\<rparr>),
     Unmarshal_NoiseCertificateDetails = (\<lambda>d. Inr \<lparr>Key = Some (replicate 32 4)\<rparr>),
     Marshal_ClientPayload = (\<lambda>st. Inr (replicate 32 10)),
     Marshal_ClientFinish = (\<lambda>a b. Inr (a @ b)),
     NewKeyPair = demo_keypair,
     CreateSignedPreKey = (\<lambda>k i. \<lparr>PreKeyPair = demo_keypair 9, KeyID = i, PreKeySignature = Some (replicate 64 1)\<rparr>),
     Uint32 = 77,
     rand_Read = (\<lambda>n. (replicate n 5, None)) \<rparr>"

definition demo_device :: Device where
  "demo_device = \<lparr>NoiseKey = None, IdentityKey = None, SignedPreKey = None, RegistrationID = 0,
     AdvSecretKey = None, Platform = [], BusinessName = [], PushName = [], Initialized = False\<rparr>"

definition demo_cli :: "nat Client" where
  "demo_cli = \<lparr>Store = demo_device, socket = None, isExpectedDisconnect = True\<rparr>"

text \<open>The same server with a certificate for another key, with a short ephemeral key,
  and with a handshake state that cannot be finished.\<close>
definition mitm_env :: "(nat, nat) hs_env" where
  "mitm_env = demo_env\<lparr>Unmarshal_NoiseCertificateDetails := (\<lambda>d. Inr \<lparr>Key = Some (replicate 32 8)\<rparr>)\<rparr>"

definition short_ephemeral_env :: "(nat, nat) hs_env" where
  "short_ephemeral_env = demo_env\<lparr>Unmarshal_HandshakeMessage := (\<lambda>r. Inr \<lparr>ServerHelloField =
        Some \<lparr>Ephemeral = Some (replicate 31 3), Static = Some (replicate 32 4), Payload = Some [5]\<rparr>\<rparr>)\<rparr>"

definition finish_fails_env :: "(nat, nat) hs_env" where
  "finish_fails_env = demo_env\<lparr>nh_Finish := (\<lambda>n. Inl ''closed'')\<rparr>"

section \<open>The SQL store of \<^verbatim>\<open>store/sqlstore/upgrade.go\<close>\<close>

subsection \<open>Schemas, rows and constraints\<close>

text \<open>The database engine is reached through \<^verbatim>\<open>database/sql\<close> and is not part of the
  repository. The model below covers the statements that the sources issue: table
  creation, insertion, deletion with the referential actions, and the version query. It
  follows the SQL standard: a \<^verbatim>\<open>CHECK\<close> constraint accepts a row when it evaluates to
  true or to unknown, the columns of a primary key are not null, a foreign key with a
  null column references nothing, and a statement that fails leaves the transaction as
  it was.\<close>

datatype sqlval = Null | VText string | VInt int | VBytes bytes | VBool bool

datatype sqltype = TEXT | BIGINT | INTEGER | BYTEA | BOOLEAN

text \<open>The two forms of \<^verbatim>\<open>CHECK\<close> in the schema: \<^verbatim>\<open>length(c) = n\<close> and
  \<^verbatim>\<open>c >= lo AND c < hi\<close>.\<close>
datatype check_expr = LengthEq nat | InRange int int

datatype column =
  Column (col_name: string) (col_type: sqltype) (col_not_null: bool)
         (col_check: "check_expr option") (col_default: "sqlval option")

datatype ref_action = NoAction | Cascade

text \<open>\<^verbatim>\<open>FOREIGN KEY (cols) REFERENCES table(ref_cols) ON DELETE action\<close>. The clause
  \<^verbatim>\<open>ON UPDATE CASCADE\<close> of the sources is not represented: the model has no statement
  that changes a key.\<close>
datatype foreign_key =
  ForeignKey (fk_cols: "string list") (fk_table: string) (fk_ref_cols: "string list")
             (fk_on_delete: ref_action)

datatype table_def =
  TableDef (td_name: string) (td_columns: "column list") (td_primary_key: "string list")
           (td_foreign_keys: "foreign_key list")

type_synonym row = "(string \<times> sqlval) list"

datatype table = Table (t_def: table_def) (t_rows: "row list")

text \<open>A database: the names of the tables that exist, in creation order, and the table
  stored under each name (meaningful for the names that exist).\<close>
record db =
  names :: "string list"
  table_of :: "string \<Rightarrow> table"

definition empty_db :: db where
  "empty_db = \<lparr>names = [], table_of = (\<lambda>_. Table (TableDef [] [] [] []) [])\<rparr>"

definition rows_of :: "db \<Rightarrow> string \<Rightarrow> row list" where
  "rows_of d n = (if n \<in> set (names d) then t_rows (table_of d n) else [])"

definition def_of :: "db \<Rightarrow> string \<Rightarrow> table_def option" where
  "def_of d n = (if n \<in> set (names d) then Some (t_def (table_of d n)) else None)"

definition col :: "row \<Rightarrow> string \<Rightarrow> sqlval" where
  "col r c = (case map_of r c of None \<Rightarrow> Null | Some v \<Rightarrow> v)"

definition has_type :: "sqltype \<Rightarrow> sqlval \<Rightarrow> bool" where
  "has_type ty v =
     (case v of
        Null \<Rightarrow> True
      | VText _ \<Rightarrow> ty = TEXT
      | VInt _ \<Rightarrow> ty = BIGINT \<or> ty = INTEGER
      | VBytes _ \<Rightarrow> ty = BYTEA
      | VBool _ \<Rightarrow> ty = BOOLEAN)"

definition check_holds :: "check_expr \<Rightarrow> sqlval \<Rightarrow> bool" where
  "check_holds ch v =
     (case ch of
        LengthEq n \<Rightarrow>
          (case v of Null \<Rightarrow> True | VBytes b \<Rightarrow> length b = n | VText s \<Rightarrow> length s = n
           | _ \<Rightarrow> False)
      | InRange lo hi \<Rightarrow>
          (case v of Null \<Rightarrow> True | VInt i \<Rightarrow> lo \<le> i \<and> i < hi | _ \<Rightarrow> False))"

text \<open>The value a column takes in a new row: the one given, else the default, else null.\<close>
definition complete_row :: "table_def \<Rightarrow> row \<Rightarrow> row" where
  "complete_row d r =
     map (\<lambda>c. (col_name c,
                case map_of r (col_name c) of
                  Some v \<Rightarrow> v
                | None \<Rightarrow> (case col_default c of Some v \<Rightarrow> v | None \<Rightarrow> Null)))
         (td_columns d)"

definition column_ok :: "table_def \<Rightarrow> row \<Rightarrow> column \<Rightarrow> bool" where
  "column_ok d r c =
     (has_type (col_type c) (col r (col_name c))
      \<and> (col r (col_name c) = Null \<longrightarrow>
           \<not> col_not_null c \<and> col_name c \<notin> set (td_primary_key d))
      \<and> (case col_check c of None \<Rightarrow> True | Some ch \<Rightarrow> check_holds ch (col r (col_name c))))"

text \<open>The column constraints that every write of a row is checked against.\<close>
definition row_ok :: "table_def \<Rightarrow> row \<Rightarrow> bool" where
  "row_ok d r = list_all (column_ok d r) (td_columns d)"

definition key_values :: "string list \<Rightarrow> row \<Rightarrow> sqlval list" where
  "key_values cs r = map (col r) cs"

text \<open>Row \<open>r\<close> of the referencing table points to row \<open>p\<close> of the referenced table.\<close>
definition references :: "foreign_key \<Rightarrow> row \<Rightarrow> row \<Rightarrow> bool" where
  "references fk r p =
     (Null \<notin> set (key_values (fk_cols fk) r)
      \<and> key_values (fk_cols fk) r = key_values (fk_ref_cols fk) p)"

definition fk_ok :: "db \<Rightarrow> foreign_key \<Rightarrow> row \<Rightarrow> bool" where
  "fk_ok d fk r =
     (Null \<in> set (key_values (fk_cols fk) r)
      \<or> list_ex (references fk r) (rows_of d (fk_table fk)))"

text \<open>Every stored row satisfies the column constraints and the foreign keys of its
  table: the state that the engine maintains.\<close>
definition consistent :: "db \<Rightarrow> bool" where
  "consistent d =
     list_all (\<lambda>n. list_all (\<lambda>r. row_ok (t_def (table_of d n)) r
                       \<and> list_all (\<lambda>fk. fk_ok d fk r) (td_foreign_keys (t_def (table_of d n))))
                     (rows_of d n))
              (names d)"

subsection \<open>Statements\<close>

text \<open>\<^verbatim>\<open>CREATE TABLE\<close>: rejected when the name is taken or a referenced table is missing.\<close>
definition create_table :: "table_def \<Rightarrow> db \<Rightarrow> cause + db" where
  "create_table td d =
     (if td_name td \<in> set (names d) then Inl ''relation already exists''
      else if \<not> list_all (\<lambda>fk. fk_table fk \<in> set (names d) \<or> fk_table fk = td_name td)
                          (td_foreign_keys td)
      then Inl ''referenced relation does not exist''
      else Inr (d\<lparr>names := names d @ [td_name td],
                  table_of := (table_of d)(td_name td := Table td [])\<rparr>))"

text \<open>\<^verbatim>\<open>CREATE TABLE IF NOT EXISTS\<close> for a table without foreign keys.\<close>
definition create_table_if_not_exists :: "table_def \<Rightarrow> db \<Rightarrow> db" where
  "create_table_if_not_exists td d =
     (if td_name td \<in> set (names d) then d
      else d\<lparr>names := names d @ [td_name td],
              table_of := (table_of d)(td_name td := Table td [])\<rparr>)"

text \<open>\<^verbatim>\<open>INSERT INTO n (columns) VALUES (values)\<close>.\<close>
definition insert_row :: "string \<Rightarrow> row \<Rightarrow> db \<Rightarrow> cause + db" where
  "insert_row n r d =
     (if n \<notin> set (names d) then Inl ''relation does not exist''
      else
        (let t = table_of d n; td = t_def t; r' = complete_row td r
         in if \<not> list_all (\<lambda>c. c \<in> set (map col_name (td_columns td))) (map fst r)
            then Inl ''column does not exist''
            else if \<not> row_ok td r' then Inl ''violates check or not-null constraint''
            else if td_primary_key td \<noteq> []
                    \<and> list_ex (\<lambda>r0. key_values (td_primary_key td) r0
                                     = key_values (td_primary_key td) r') (t_rows t)
            then Inl ''duplicate key value''
            else if \<not> list_all (\<lambda>fk. fk_ok d fk r') (td_foreign_keys td)
            then Inl ''violates foreign key constraint''
            else Inr (d\<lparr>table_of := (table_of d)(n := Table td (t_rows t @ [r']))\<rparr>)))"

text \<open>The rows that \<^verbatim>\<open>DELETE FROM n WHERE P\<close> removes: the rows of \<open>n\<close> that satisfy
  \<open>P\<close>, and every row that points, through a foreign key declared
  \<^verbatim>\<open>ON DELETE CASCADE\<close>, to a row that is removed.\<close>
inductive dead :: "db \<Rightarrow> string \<Rightarrow> (row \<Rightarrow> bool) \<Rightarrow> string \<Rightarrow> row \<Rightarrow> bool"
  for d :: db and n :: string and P :: "row \<Rightarrow> bool" where
  target: "r \<in> set (rows_of d n) \<Longrightarrow> P r \<Longrightarrow> dead d n P n r"
| cascade: "r \<in> set (rows_of d c)
      \<Longrightarrow> fk \<in> set (td_foreign_keys (t_def (table_of d c)))
      \<Longrightarrow> fk_on_delete fk = Cascade
      \<Longrightarrow> p \<in> set (rows_of d (fk_table fk)) \<Longrightarrow> references fk r p
      \<Longrightarrow> m = fk_table fk \<Longrightarrow> dead d n P m p
      \<Longrightarrow> dead d n P c r"

code_pred dead .

text \<open>A row that stays and points to a removed row, which can only be through a foreign
  key without \<^verbatim>\<open>ON DELETE CASCADE\<close>, makes the engine reject the statement.\<close>
definition blocked :: "db \<Rightarrow> string \<Rightarrow> (row \<Rightarrow> bool) \<Rightarrow> bool" where
  "blocked d n P =
     (\<exists>c \<in> set (names d). \<exists>r \<in> set (rows_of d c). \<not> dead d n P c r
        \<and> (\<exists>fk \<in> set (td_foreign_keys (t_def (table_of d c))).
             \<exists>p \<in> set (rows_of d (fk_table fk)).
               dead d n P (fk_table fk) p \<and> references fk r p))"

definition remove_dead :: "db \<Rightarrow> string \<Rightarrow> (row \<Rightarrow> bool) \<Rightarrow> db" where
  "remove_dead d n P =
     d\<lparr>table_of := (\<lambda>c. Table (t_def (table_of d c))
                           (filter (\<lambda>r. \<not> dead d n P c r) (t_rows (table_of d c))))\<rparr>"

text \<open>\<^verbatim>\<open>DELETE FROM n WHERE P\<close>.\<close>
definition delete_where :: "string \<Rightarrow> (row \<Rightarrow> bool) \<Rightarrow> db \<Rightarrow> cause + db" where
  "delete_where n P d =
     (if n \<notin> set (names d) then Inl ''relation does not exist''
      else if blocked d n P then Inl ''violates foreign key constraint''
      else Inr (remove_dead d n P))"

subsection \<open>The schema of \<^verbatim>\<open>Upgrades[0]\<close>\<close>

text \<open>The ten \<^verbatim>\<open>CREATE TABLE\<close> statements of lines 17-145, column by column.\<close>

definition whatsmeow_device :: table_def where
  "whatsmeow_device = TableDef ''whatsmeow_device''
     [Column ''jid'' TEXT False None None,
      Column ''registration_id'' BIGINT True (Some (InRange 0 4294967296)) None,
      Column ''noise_key'' BYTEA True (Some (LengthEq 32)) None,
      Column ''identity_key'' BYTEA True (Some (LengthEq 32)) None,
      Column ''signed_pre_key'' BYTEA True (Some (LengthEq 32)) None,
      Column ''signed_pre_key_id'' INTEGER True (Some (InRange 0 16777216)) None,
      Column ''signed_pre_key_sig'' BYTEA True (Some (LengthEq 64)) None,
      Column ''adv_key'' BYTEA True None None,
      Column ''adv_details'' BYTEA True None None,
      Column ''adv_account_sig'' BYTEA True (Some (LengthEq 64)) None,
      Column ''adv_device_sig'' BYTEA True (Some (LengthEq 64)) None,
      Column ''platform'' TEXT True None (Some (VText [])),
      Column ''business_name'' TEXT True None (Some (VText [])),
      Column ''push_name'' TEXT True None (Some (VText []))]
     [''jid'']
     []"

definition whatsmeow_identity_keys :: table_def where
  "whatsmeow_identity_keys = TableDef ''whatsmeow_identity_keys''
     [Column ''our_jid'' TEXT False None None,
      Column ''their_id'' TEXT False None None,
      Column ''identity'' BYTEA True (Some (LengthEq 32)) None]
     [''our_jid'', ''their_id'']
     [ForeignKey [''our_jid''] ''whatsmeow_device'' [''jid''] Cascade]"

definition whatsmeow_pre_keys :: table_def where
  "whatsmeow_pre_keys = TableDef ''whatsmeow_pre_keys''
     [Column ''jid'' TEXT False None None,
      Column ''key_id'' INTEGER False (Some (InRange 0 16777216)) None,
      Column ''key'' BYTEA True (Some (LengthEq 32)) None,
      Column ''uploaded'' BOOLEAN True None None]
     [''jid'', ''key_id'']
     [ForeignKey [''jid''] ''whatsmeow_device'' [''jid''] Cascade]"

definition whatsmeow_sessions :: table_def where
  "whatsmeow_sessions = TableDef ''whatsmeow_sessions''
     [Column ''our_jid'' TEXT False None None,
      Column ''their_id'' TEXT False None None,
      Column ''session'' BYTEA False None None]
     [''our_jid'', ''their_id'']
     [ForeignKey [''our_jid''] ''whatsmeow_device'' [''jid''] Cascade]"

definition whatsmeow_sender_keys :: table_def where
  "whatsmeow_sender_keys = TableDef ''whatsmeow_sender_keys''
     [Column ''our_jid'' TEXT False None None,
      Column ''chat_id'' TEXT False None None,
      Column ''sender_id'' TEXT False None None,
      Column ''sender_key'' BYTEA True None None]
     [''our_jid'', ''chat_id'', ''sender_id'']
     [ForeignKey [''our_jid''] ''whatsmeow_device'' [''jid''] Cascade]"

definition whatsmeow_app_state_sync_keys :: table_def where
  "whatsmeow_app_state_sync_keys = TableDef ''whatsmeow_app_state_sync_keys''
     [Column ''jid'' TEXT False None None,
      Column ''key_id'' BYTEA False None None,
      Column ''key_data'' BYTEA True None None,
      Column ''timestamp'' BIGINT True None None,
      Column ''fingerprint'' BYTEA True None None]
     [''jid'', ''key_id'']
     [ForeignKey [''jid''] ''whatsmeow_device'' [''jid''] Cascade]"

definition whatsmeow_app_state_version :: table_def where
  "whatsmeow_app_state_version = TableDef ''whatsmeow_app_state_version''
     [Column ''jid'' TEXT False None None,
      Column ''name'' TEXT False None None,
      Column ''version'' BIGINT True None None,
      Column ''hash'' BYTEA True (Some (LengthEq 128)) None]
     [''jid'', ''name'']
     [ForeignKey [''jid''] ''whatsmeow_device'' [''jid''] Cascade]"

definition whatsmeow_app_state_mutation_macs :: table_def where
  "whatsmeow_app_state_mutation_macs = TableDef ''whatsmeow_app_state_mutation_macs''
     [Column ''jid'' TEXT False None None,
      Column ''name'' TEXT False None None,
      Column ''version'' BIGINT False None None,
      Column ''index_mac'' BYTEA False (Some (LengthEq 32)) None,
      Column ''value_mac'' BYTEA True (Some (LengthEq 32)) None]
     [''jid'', ''name'', ''version'', ''index_mac'']
     [ForeignKey [''jid'', ''name''] ''whatsmeow_app_state_version'' [''jid'', ''name''] Cascade]"

definition whatsmeow_contacts :: table_def where
  "whatsmeow_contacts = TableDef ''whatsmeow_contacts''
     [Column ''our_jid'' TEXT False None None,
      Column ''their_jid'' TEXT False None None,
      Column ''first_name'' TEXT False None None,
      Column ''full_name'' TEXT False None None,
      Column ''push_name'' TEXT False None None,
      Column ''business_name'' TEXT False None None]
     [''our_jid'', ''their_jid'']
     [ForeignKey [''our_jid''] ''whatsmeow_device'' [''jid''] Cascade]"

definition whatsmeow_chat_settings :: table_def where
  "whatsmeow_chat_settings = TableDef ''whatsmeow_chat_settings''
     [Column ''our_jid'' TEXT False None None,
      Column ''chat_jid'' TEXT False None None,
      Column ''muted_until'' BIGINT True None (Some (VInt 0)),
      Column ''pinned'' BOOLEAN True None (Some (VBool False)),
      Column ''archived'' BOOLEAN True None (Some (VBool False))]
     [''our_jid'', ''chat_jid'']
     [ForeignKey [''our_jid''] ''whatsmeow_device'' [''jid''] Cascade]"

text \<open>\<^verbatim>\<open>CREATE TABLE IF NOT EXISTS whatsmeow_version (version INTEGER)\<close> (line 154).\<close>
definition whatsmeow_version :: table_def where
  "whatsmeow_version = TableDef ''whatsmeow_version''
     [Column ''version'' INTEGER False None None] [] []"

subsection \<open>The migrator\<close>

text \<open>Which calls on the database fail for a reason outside the model (lost connection,
  full disk): the \<^verbatim>\<open>Exec\<close> and the query of \<^verbatim>\<open>getVersion\<close>, the \<open>i\<close>-th \<^verbatim>\<open>tx.Exec\<close> of a
  step, and \<^verbatim>\<open>Begin\<close>, the two statements of \<^verbatim>\<open>setVersion\<close> and \<^verbatim>\<open>Commit\<close> in the loop
  iteration of a given version.\<close>
record db_env =
  create_version_fault :: "cause option"
  query_version_fault :: "cause option"
  begin_fault :: "int \<Rightarrow> cause option"
  exec_fault :: "nat \<Rightarrow> cause option"
  delete_version_fault :: "int \<Rightarrow> cause option"
  insert_version_fault :: "int \<Rightarrow> cause option"
  commit_fault :: "int \<Rightarrow> cause option"

text \<open>\<^verbatim>\<open>type upgradeFunc func(*sql.Tx, *Container) error\<close>: a step works on the state
  of its transaction and returns the new state, or the error.\<close>
type_synonym upgradeFunc = "db_env \<Rightarrow> db \<Rightarrow> cause + db"

definition tx_Exec_create :: "db_env \<Rightarrow> nat \<Rightarrow> table_def \<Rightarrow> db \<Rightarrow> cause + db" where
  "tx_Exec_create E i td tx =
     (case exec_fault E i of Some e \<Rightarrow> Inl e | None \<Rightarrow> create_table td tx)"

text \<open>\<^verbatim>\<open>Upgrades[0]\<close> (lines 16-150). The error of the second statement is overwritten by
  the third before it is looked at (lines 41-49), so a failure there is not returned.\<close>
definition upgrade_v1 :: upgradeFunc where
  "upgrade_v1 E tx0 =
    (case tx_Exec_create E 0 whatsmeow_device tx0 of Inl err \<Rightarrow> Inl err | Inr tx1 \<Rightarrow>
    (let tx2 = (case tx_Exec_create E 1 whatsmeow_identity_keys tx1 of
                  Inl err \<Rightarrow> tx1 | Inr tx \<Rightarrow> tx)
     in
     case tx_Exec_create E 2 whatsmeow_pre_keys tx2 of Inl err \<Rightarrow> Inl err | Inr tx3 \<Rightarrow>
    (case tx_Exec_create E 3 whatsmeow_sessions tx3 of Inl err \<Rightarrow> Inl err | Inr tx4 \<Rightarrow>
    (case tx_Exec_create E 4 whatsmeow_sender_keys tx4 of Inl err \<Rightarrow> Inl err | Inr tx5 \<Rightarrow>
    (case tx_Exec_create E 5 whatsmeow_app_state_sync_keys tx5 of Inl err \<Rightarrow> Inl err | Inr tx6 \<Rightarrow>
    (case tx_Exec_create E 6 whatsmeow_app_state_version tx6 of Inl err \<Rightarrow> Inl err | Inr tx7 \<Rightarrow>
    (case tx_Exec_create E 7 whatsmeow_app_state_mutation_macs tx7 of Inl err \<Rightarrow> Inl err | Inr tx8 \<Rightarrow>
    (case tx_Exec_create E 8 whatsmeow_contacts tx8 of Inl err \<Rightarrow> Inl err | Inr tx9 \<Rightarrow>
    (case tx_Exec_create E 9 whatsmeow_chat_settings tx9 of Inl err \<Rightarrow> Inl err | Inr tx10 \<Rightarrow>
       Inr tx10)))))))))"

definition Upgrades :: "upgradeFunc list" where
  "Upgrades = [upgrade_v1]"

text \<open>What \<^verbatim>\<open>row.Scan(&version)\<close> yields on
  \<^verbatim>\<open>SELECT version FROM whatsmeow_version LIMIT 1\<close>: the integer of the first row, or
  nothing when there is no row or its value is not an integer.\<close>
definition scan_version :: "db \<Rightarrow> int option" where
  "scan_version d =
     (case rows_of d ''whatsmeow_version'' of
        [] \<Rightarrow> None
      | r # _ \<Rightarrow> (case col r ''version'' of VInt v \<Rightarrow> Some v | _ \<Rightarrow> None))"

text \<open>\<^verbatim>\<open>getVersion\<close> (lines 153-165): the error of \<^verbatim>\<open>Scan\<close> is dropped and the version
  stays 0.\<close>
definition getVersion :: "db_env \<Rightarrow> db \<Rightarrow> (cause + int) \<times> db" where
  "getVersion E d =
     (case create_version_fault E of
        Some err \<Rightarrow> (Inl err, d)
      | None \<Rightarrow>
          (let d' = create_table_if_not_exists whatsmeow_version d;
               version = (case query_version_fault E of
                            Some _ \<Rightarrow> 0
                          | None \<Rightarrow> (case scan_version d' of None \<Rightarrow> 0 | Some v \<Rightarrow> v))
           in (Inr version, d')))"

text \<open>\<^verbatim>\<open>setVersion\<close> (lines 167-174).\<close>
definition setVersion :: "db_env \<Rightarrow> db \<Rightarrow> int \<Rightarrow> cause + db" where
  "setVersion E tx version =
     (case delete_version_fault E version of
        Some err \<Rightarrow> Inl err
      | None \<Rightarrow>
     (case delete_where ''whatsmeow_version'' (\<lambda>_. True) tx of
        Inl err \<Rightarrow> Inl err
      | Inr tx' \<Rightarrow>
     (case insert_version_fault E version of
        Some err \<Rightarrow> Inl err
      | None \<Rightarrow> insert_row ''whatsmeow_version'' [(''version'', VInt version)] tx')))"

text \<open>The calls of the loop on the database, with what each returned: a failed call
  carries its error, a successful \<^verbatim>\<open>Commit\<close> the state it made durable. The number is
  the loop index, and for \<^verbatim>\<open>setVersion\<close> the version it writes.\<close>
datatype tx_event =
    TxBegin int "cause option"
  | TxApply int "cause option"
  | TxRollback int
  | TxSetVersion int "cause option"
  | TxCommit int "cause + db"

text \<open>\<^verbatim>\<open>Upgrade\<close> returns nil or an error, or panics on a negative index into
  \<^verbatim>\<open>Upgrades\<close>.\<close>
datatype up_result = Done | Error cause | Panic

text \<open>The loop of \<^verbatim>\<open>Upgrade\<close> (lines 183-204). The transaction starts from the committed
  state; only \<^verbatim>\<open>Commit\<close> replaces the committed state. \<^verbatim>\<open>Rollback\<close> is called after a
  failed step only: after a failed \<^verbatim>\<open>setVersion\<close> or \<^verbatim>\<open>Commit\<close> the transaction is
  abandoned without it.\<close>
function upgrade_loop ::
  "db_env \<Rightarrow> upgradeFunc list \<Rightarrow> int \<Rightarrow> db \<Rightarrow> up_result \<times> db \<times> tx_event list" where
  "upgrade_loop E ups version d =
     (if version < int (length ups) then
        (case begin_fault E version of
           Some err \<Rightarrow> (Error err, d, [TxBegin version (Some err)])
         | None \<Rightarrow>
        (if version < 0 then (Panic, d, [TxBegin version None])
         else
        (case (ups ! nat version) E d of
           Inl err \<Rightarrow>
             (Error err, d,
              [TxBegin version None, TxApply version (Some err), TxRollback version])
         | Inr tx1 \<Rightarrow>
        (case setVersion E tx1 (version + 1) of
           Inl err \<Rightarrow>
             (Error err, d,
              [TxBegin version None, TxApply version None, TxSetVersion (version + 1) (Some err)])
         | Inr tx2 \<Rightarrow>
        (case commit_fault E version of
           Some err \<Rightarrow>
             (Error err, d,
              [TxBegin version None, TxApply version None, TxSetVersion (version + 1) None,
               TxCommit version (Inl err)])
         | None \<Rightarrow>
             (case upgrade_loop E ups (version + 1) tx2 of
                (res, d', tr) \<Rightarrow>
                  (res, d',
                   [TxBegin version None, TxApply version None,
                    TxSetVersion (version + 1) None, TxCommit version (Inr tx2)] @ tr)))))))
      else (Done, d, []))"
  by pat_completeness auto
termination
  by (relation "measure (\<lambda>(E, ups, version, d). nat (int (length ups) - version))") auto

declare upgrade_loop.simps [simp del]

text \<open>\<^verbatim>\<open>Upgrade\<close> (lines 177-207).\<close>
definition Upgrade :: "db_env \<Rightarrow> upgradeFunc list \<Rightarrow> db \<Rightarrow> up_result \<times> db \<times> tx_event list" where
  "Upgrade E ups d =
     (case getVersion E d of
        (Inl err, d') \<Rightarrow> (Error err, d', [])
      | (Inr version, d') \<Rightarrow> upgrade_loop E ups version d')"

text \<open>The committed state after a log: that of its last successful \<^verbatim>\<open>Commit\<close>, or the
  initial one.\<close>
fun last_committed :: "db \<Rightarrow> tx_event list \<Rightarrow> db" where
  "last_committed d [] = d"
| "last_committed d (TxCommit i (Inr d') # tr) = last_committed d' tr"
| "last_committed d (_ # tr) = last_committed d tr"

text \<open>Modelled from the spec: the implementation of \<^verbatim>\<open>DeviceContainer.DeleteDevice\<close>
  (declared in \<^verbatim>\<open>store/store.go\<close>, line 86, and called by \<^verbatim>\<open>Device.Delete\<close>) is not among
  the sources. Section 6 has \<^verbatim>\<open>Device.delete()\<close> remove the device and all cascading
  rows; it is taken to be \<^verbatim>\<open>DELETE FROM whatsmeow_device WHERE jid = j\<close>.\<close>
definition delete_device :: "string \<Rightarrow> db \<Rightarrow> cause + db" where
  "delete_device j d = delete_where ''whatsmeow_device'' (\<lambda>r. col r ''jid'' = VText j) d"


subsection \<open>Reading the log and the schema\<close>

text \<open>The loop iteration an event belongs to, and whether it is a successful commit.\<close>
fun ev_index :: "tx_event \<Rightarrow> int" where
  "ev_index (TxBegin i _) = i"
| "ev_index (TxApply i _) = i"
| "ev_index (TxRollback i) = i"
| "ev_index (TxSetVersion i _) = i - 1"
| "ev_index (TxCommit i _) = i"

fun is_commit :: "tx_event \<Rightarrow> bool" where
  "is_commit (TxCommit _ (Inr _)) = True"
| "is_commit _ = False"

text \<open>The error of a call that failed: of \<^verbatim>\<open>Begin\<close>, of the migration function, of
  \<^verbatim>\<open>setVersion\<close> or of \<^verbatim>\<open>Commit\<close>.\<close>
fun ev_error :: "tx_event \<Rightarrow> cause option" where
  "ev_error (TxBegin _ r) = r"
| "ev_error (TxApply _ r) = r"
| "ev_error (TxRollback _) = None"
| "ev_error (TxSetVersion _ r) = r"
| "ev_error (TxCommit _ (Inl err)) = Some err"
| "ev_error (TxCommit _ (Inr _)) = None"

text \<open>The tables of the schema: the version table and the ten tables of
  \<^verbatim>\<open>Upgrades[0]\<close>, with their names in creation order.\<close>
definition all_tables :: "table_def list" where
  "all_tables = [whatsmeow_version, whatsmeow_device, whatsmeow_identity_keys,
     whatsmeow_pre_keys, whatsmeow_sessions, whatsmeow_sender_keys,
     whatsmeow_app_state_sync_keys, whatsmeow_app_state_version,
     whatsmeow_app_state_mutation_macs, whatsmeow_contacts, whatsmeow_chat_settings]"

definition schema_names :: "string list" where
  "schema_names = [''whatsmeow_version'', ''whatsmeow_device'', ''whatsmeow_identity_keys'',
     ''whatsmeow_pre_keys'', ''whatsmeow_sessions'', ''whatsmeow_sender_keys'',
     ''whatsmeow_app_state_sync_keys'', ''whatsmeow_app_state_version'',
     ''whatsmeow_app_state_mutation_macs'', ''whatsmeow_contacts'', ''whatsmeow_chat_settings'']"

text \<open>A database whose tables are exactly those of the schema, with these definitions.\<close>
definition installed :: "db \<Rightarrow> bool" where
  "installed d = (set (names d) = set (map td_name all_tables)
                  \<and> list_all (\<lambda>td. t_def (table_of d (td_name td)) = td) all_tables)"

text \<open>The nine tables that hang on a device, each with the column that holds the
  address of its device (the foreign key column, lines 47-144).\<close>
definition dependent_tables :: "(string \<times> string) list" where
  "dependent_tables =
     [(''whatsmeow_identity_keys'', ''our_jid''), (''whatsmeow_pre_keys'', ''jid''),
      (''whatsmeow_sessions'', ''our_jid''), (''whatsmeow_sender_keys'', ''our_jid''),
      (''whatsmeow_app_state_sync_keys'', ''jid''), (''whatsmeow_app_state_version'', ''jid''),
      (''whatsmeow_app_state_mutation_macs'', ''jid''), (''whatsmeow_contacts'', ''our_jid''),
      (''whatsmeow_chat_settings'', ''our_jid'')]"

text \<open>The device column of a table of the schema.\<close>
definition device_key :: "string \<Rightarrow> string" where
  "device_key t = (case map_of dependent_tables t of Some k \<Rightarrow> k | None \<Rightarrow> ''jid'')"

text \<open>The columns of a table that carry \<^verbatim>\<open>CHECK ( length(c) = n )\<close>.\<close>
definition length_checked :: "table_def \<Rightarrow> (string \<times> nat) list" where
  "length_checked td =
     concat (map (\<lambda>c. case col_check c of Some (LengthEq n) \<Rightarrow> [(col_name c, n)] | _ \<Rightarrow> [])
                 (td_columns td))"

subsection \<open>Sample databases and runs\<close>

text \<open>A connection on which no call fails, one on which the version query fails, a
  step that always fails, and the list of \<^verbatim>\<open>Upgrades[0]\<close> followed by that step.\<close>
definition no_faults :: db_env where
  "no_faults = \<lparr>create_version_fault = None, query_version_fault = None,
     begin_fault = (\<lambda>_. None), exec_fault = (\<lambda>_. None), delete_version_fault = (\<lambda>_. None),
     insert_version_fault = (\<lambda>_. None), commit_fault = (\<lambda>_. None)\<rparr>"

definition query_fails :: db_env where
  "query_fails = no_faults\<lparr>query_version_fault := Some ''connection lost''\<rparr>"

definition failing_step :: upgradeFunc where
  "failing_step E tx = Inl ''step failed''"

definition two_steps :: "upgradeFunc list" where
  "two_steps = [upgrade_v1, failing_step]"

text \<open>The database that \<^verbatim>\<open>Upgrade\<close> makes of the empty one.\<close>
definition migrated_db :: db where
  "migrated_db = fst (snd (Upgrade no_faults Upgrades empty_db))"

text \<open>A row for the device table, and a database with two devices and rows of theirs.\<close>
definition device_row :: "string \<Rightarrow> bytes \<Rightarrow> bytes \<Rightarrow> row" where
  "device_row j noise adv =
     [(''jid'', VText j), (''registration_id'', VInt 77),
      (''noise_key'', VBytes noise), (''identity_key'', VBytes (replicate 32 2)),
      (''signed_pre_key'', VBytes (replicate 32 3)), (''signed_pre_key_id'', VInt 1),
      (''signed_pre_key_sig'', VBytes (replicate 64 4)),
      (''adv_key'', VBytes adv), (''adv_details'', VBytes [5]),
      (''adv_account_sig'', VBytes (replicate 64 6)),
      (''adv_device_sig'', VBytes (replicate 64 7))]"

definition populated_db :: db where
  "populated_db =
     \<lparr>names = schema_names,
      table_of = (\<lambda>_. Table (TableDef [] [] [] []) [])
        (''whatsmeow_version'' := Table whatsmeow_version [[(''version'', VInt 1)]],
         ''whatsmeow_device'' := Table whatsmeow_device
            [complete_row whatsmeow_device (device_row ''alice'' (replicate 32 1) (replicate 32 8)),
             complete_row whatsmeow_device (device_row ''bob'' (replicate 32 1) (replicate 32 8))],
         ''whatsmeow_identity_keys'' := Table whatsmeow_identity_keys
            [[(''our_jid'', VText ''alice''), (''their_id'', VText ''carol''),
              (''identity'', VBytes (replicate 32 9))]],
         ''whatsmeow_pre_keys'' := Table whatsmeow_pre_keys [],
         ''whatsmeow_sessions'' := Table whatsmeow_sessions
            [[(''our_jid'', VText ''alice''), (''their_id'', VText ''carol''), (''session'', VBytes [1])],
             [(''our_jid'', VText ''bob''), (''their_id'', VText ''carol''), (''session'', VBytes [2])]],
         ''whatsmeow_sender_keys'' := Table whatsmeow_sender_keys [],
         ''whatsmeow_app_state_sync_keys'' := Table whatsmeow_app_state_sync_keys [],
         ''whatsmeow_app_state_version'' := Table whatsmeow_app_state_version
            [[(''jid'', VText ''alice''), (''name'', VText ''regular''), (''version'', VInt 3),
              (''hash'', VBytes (replicate 128 0))]],
         ''whatsmeow_app_state_mutation_macs'' := Table whatsmeow_app_state_mutation_macs
            [[(''jid'', VText ''alice''), (''name'', VText ''regular''), (''version'', VInt 3),
              (''index_mac'', VBytes (replicate 32 1)), (''value_mac'', VBytes (replicate 32 2))]],
         ''whatsmeow_contacts'' := Table whatsmeow_contacts [],
         ''whatsmeow_chat_settings'' := Table whatsmeow_chat_settings [])\<rparr>"

section \<open>Properties of the handshake\<close>

lemmas hs_defs = hs_server_hello_def hs_certificate_def hs_client_finish_def doHandshake_def
  ensure_noise_key_def ensure_signal_keys_def send_client_finish_def ensure_adv_secret_def
  GetServerHello_def GetEphemeral_def GetStatic_def GetPayload_def len_def slice_contents_def bytes_Equal_def

lemmas demo_defs = demo_env_def demo_cli_def demo_device_def demo_keypair_def mitm_env_def
  short_ephemeral_env_def finish_fails_env_def

lemma hello_log: "hs_server_hello E kp = (r, ev) \<Longrightarrow>
   EvFinish \<notin> set ev \<and> EvNewKeyPair \<notin> set ev \<and> EvCreateSignedPreKey \<notin> set ev \<and> EvUint32 \<notin> set ev
   \<and> EvRandRead \<notin> set ev \<and> (\<forall>x. EvEncrypt x \<notin> set ev) \<and> (\<forall>x. EvSendFrame x \<notin> set ev)"
  by (auto simp: hs_server_hello_def Let_def split: sum.splits if_splits prod.splits)

lemma certificate_log: "hs_certificate E nh c s = (r, ev) \<Longrightarrow> ev = [EvDecrypt c]"
  by (auto simp: hs_certificate_def Let_def split: sum.splits if_splits prod.splits)

lemma cert_err: "hs_certificate E nh c s = (Inl e, ev) \<Longrightarrow> \<not> fails_by_static_decrypt e"
  by (auto simp: hs_certificate_def Let_def fails_by_static_decrypt_def split: sum.splits if_splits prod.splits)

lemma send_client_finish_err:
  "send_client_finish E nh p st = (Inl e, ev) \<Longrightarrow> \<not> fails_by_static_decrypt e"
  by (auto simp: send_client_finish_def Let_def fails_by_static_decrypt_def
      split: sum.splits prod.splits option.splits)

lemma finish_err: "hs_client_finish E cli nh eph = (Some e, cli', ev) \<Longrightarrow> \<not> fails_by_static_decrypt e"
  by (auto simp: hs_client_finish_def Let_def fails_by_static_decrypt_def
      split: sum.splits prod.splits option.splits dest: send_client_finish_err)

lemma finish_socket: "hs_client_finish E cli nh eph = (Some e, cli', ev) \<Longrightarrow> socket cli' = socket cli"
  by (auto simp: hs_client_finish_def Let_def split: sum.splits prod.splits option.splits)

lemma ensure_noise_key_result:
  "ensure_noise_key E st = (st', ev) \<Longrightarrow>
     st' = st\<lparr>NoiseKey := Some (case NoiseKey st of None \<Rightarrow> NewKeyPair E 0 | Some k \<Rightarrow> k)\<rparr>
   \<and> ev = (if NoiseKey st = None then [EvNewKeyPair] else [])"
  by (auto simp: ensure_noise_key_def split: if_splits)

lemma ensure_signal_keys_result:
  "ensure_signal_keys E n st = (st', ev) \<Longrightarrow>
     NoiseKey st' = NoiseKey st \<and> AdvSecretKey st' = AdvSecretKey st
   \<and> IdentityKey st' = Some (case IdentityKey st of None \<Rightarrow> NewKeyPair E n | Some k \<Rightarrow> k)
   \<and> SignedPreKey st' = Some (case SignedPreKey st of
         None \<Rightarrow> CreateSignedPreKey E (case IdentityKey st of None \<Rightarrow> NewKeyPair E n | Some k \<Rightarrow> k) 1
       | Some p \<Rightarrow> p)
   \<and> RegistrationID st' = (if RegistrationID st = 0 then Uint32 E else RegistrationID st)
   \<and> ev = (if IdentityKey st = None then [EvNewKeyPair] else [])
          @ (if SignedPreKey st = None then [EvCreateSignedPreKey] else [])
          @ (if RegistrationID st = 0 then [EvUint32] else [])"
  by (auto simp: ensure_signal_keys_def Let_def split: if_splits)

lemma ensure_adv_secret_result:
  "ensure_adv_secret E st = (err, st', ev) \<Longrightarrow>
     NoiseKey st' = NoiseKey st \<and> IdentityKey st' = IdentityKey st
   \<and> SignedPreKey st' = SignedPreKey st \<and> RegistrationID st' = RegistrationID st
   \<and> AdvSecretKey st' = Some (case AdvSecretKey st of None \<Rightarrow> fst (rand_Read E 32) | Some b \<Rightarrow> b)
   \<and> ev = (if AdvSecretKey st = None then [EvRandRead] else [])"
  by (auto simp: ensure_adv_secret_def split: if_splits prod.splits)

lemma send_client_finish_ok:
  "send_client_finish E nh p st = (Inr ns, ev) \<Longrightarrow>
     \<exists>payload data. Marshal_ClientPayload E st = Inr payload
        \<and> Marshal_ClientFinish E p (fst (nh_Encrypt E nh payload)) = Inr data
        \<and> ev = [EvEncrypt payload, EvSendFrame data, EvFinish]"
  by (auto simp: send_client_finish_def Let_def split: sum.splits prod.splits option.splits)

lemma finish_noise_key: "hs_client_finish E cli nh' eph = (err, cli', ev3) \<Longrightarrow>
   NoiseKey (Store cli') = Some (case NoiseKey (Store cli) of None \<Rightarrow> NewKeyPair E 0 | Some k \<Rightarrow> k)"
  by (auto simp: hs_client_finish_def Let_def split: sum.splits prod.splits option.splits
       dest!: ensure_noise_key_result ensure_signal_keys_result ensure_adv_secret_result)

lemma finish_log_prefix: "hs_client_finish E cli nh' eph = (err, cli', ev3) \<Longrightarrow>
   \<exists>post. ev3 = (if NoiseKey (Store cli) = None then [EvNewKeyPair] else [])
      @ [EvEncrypt (Pub (case NoiseKey (Store cli) of None \<Rightarrow> NewKeyPair E 0 | Some k \<Rightarrow> k)),
         EvMixSharedSecretIntoKey (Priv (case NoiseKey (Store cli) of None \<Rightarrow> NewKeyPair E 0 | Some k \<Rightarrow> k)) eph] @ post"
  by (auto simp: hs_client_finish_def Let_def split: sum.splits prod.splits option.splits
       dest!: ensure_noise_key_result)

lemma send_client_finish_log:
  "send_client_finish E nh p st = (r, ev) \<Longrightarrow>
     EvNewKeyPair \<notin> set ev \<and> EvCreateSignedPreKey \<notin> set ev \<and> EvUint32 \<notin> set ev \<and> EvRandRead \<notin> set ev"
  by (auto simp: send_client_finish_def Let_def split: sum.splits prod.splits option.splits)

lemma finish_preserves:
  "hs_client_finish E cli nh eph = (err, cli', ev) \<Longrightarrow>
     (NoiseKey (Store cli) \<noteq> None \<longrightarrow> NoiseKey (Store cli') = NoiseKey (Store cli))
   \<and> (IdentityKey (Store cli) \<noteq> None \<longrightarrow> IdentityKey (Store cli') = IdentityKey (Store cli))
   \<and> (SignedPreKey (Store cli) \<noteq> None \<longrightarrow> SignedPreKey (Store cli') = SignedPreKey (Store cli))
   \<and> (RegistrationID (Store cli) \<noteq> 0 \<longrightarrow> RegistrationID (Store cli') = RegistrationID (Store cli))
   \<and> (AdvSecretKey (Store cli) \<noteq> None \<longrightarrow> AdvSecretKey (Store cli') = AdvSecretKey (Store cli))"
  by (auto simp: hs_client_finish_def Let_def split: sum.splits prod.splits option.splits
       dest!: ensure_noise_key_result ensure_signal_keys_result ensure_adv_secret_result)

lemma finish_sent:
  "hs_client_finish E cli nh eph = (err, cli', ev) \<Longrightarrow> EvSendFrame d \<in> set ev \<Longrightarrow>
     NoiseKey (Store cli') \<noteq> None \<and> IdentityKey (Store cli') \<noteq> None
   \<and> SignedPreKey (Store cli') \<noteq> None
   \<and> RegistrationID (Store cli') =
        (if RegistrationID (Store cli) = 0 then Uint32 E else RegistrationID (Store cli))"
  by (auto simp: hs_client_finish_def Let_def split: sum.splits prod.splits option.splits
       dest!: ensure_noise_key_result ensure_signal_keys_result ensure_adv_secret_result)

lemma finish_success:
  "hs_client_finish E cli nh eph = (None, cli', ev) \<Longrightarrow>
     \<exists>noiseKey payload data.
       NoiseKey (Store cli') = Some noiseKey
     \<and> IdentityKey (Store cli') \<noteq> None \<and> SignedPreKey (Store cli') \<noteq> None
     \<and> AdvSecretKey (Store cli') \<noteq> None
     \<and> ev = (if NoiseKey (Store cli) = None then [EvNewKeyPair] else [])
          @ [EvEncrypt (Pub noiseKey), EvMixSharedSecretIntoKey (Priv noiseKey) eph]
          @ (if IdentityKey (Store cli) = None then [EvNewKeyPair] else [])
          @ (if SignedPreKey (Store cli) = None then [EvCreateSignedPreKey] else [])
          @ (if RegistrationID (Store cli) = 0 then [EvUint32] else [])
          @ [EvEncrypt payload, EvSendFrame data, EvFinish]
          @ (if AdvSecretKey (Store cli) = None then [EvRandRead] else [])"
  by (auto simp: hs_client_finish_def Let_def split: sum.splits prod.splits option.splits
       dest!: ensure_noise_key_result ensure_signal_keys_result ensure_adv_secret_result
              send_client_finish_ok)

subsection \<open>Certificate key check\<close>

lemma send_client_finish_not_mismatch:
  "send_client_finish E nh p st = (Inl e, ev) \<Longrightarrow> e \<noteq> ErrCertKeyMismatch"
  by (auto simp: send_client_finish_def Let_def split: sum.splits prod.splits option.splits)

lemma finish_not_mismatch:
  "hs_client_finish E cli nh eph = (err, cli', ev) \<Longrightarrow> err \<noteq> Some ErrCertKeyMismatch"
  by (auto simp: hs_client_finish_def Let_def split: sum.splits prod.splits option.splits
      dest: send_client_finish_not_mismatch)

text \<open>Claim C1. Take a run of \<^verbatim>\<open>doHandshake\<close> in which the server hello was accepted, the
  certificate was decrypted and both it and its details were parsed. If the key in the
  certificate details is not byte-equal to the decrypted server static key, the run
  returns the error \<open>ErrCertKeyMismatch\<close>, the client is left as it was (so
  \<^verbatim>\<open>cli.socket\<close> is not assigned) and \<^verbatim>\<open>nh.Finish\<close> is not among the calls made. If the
  two keys are equal, the run does not return that error.\<close>
theorem cert_key_mismatch_aborts:
  assumes "hs_server_hello E kp = (Inr (nh, staticDecrypted, eph, certCt), ev1)"
    and "nh_Decrypt E nh certCt = Inr (certDecrypted, nh')"
    and "Unmarshal_NoiseCertificate E certDecrypted = Inr cert"
    and "Details cert = Some d" and "Signature cert = Some sg"
    and "Unmarshal_NoiseCertificateDetails E d = Inr certDetails"
  shows "(\<not> bytes_Equal (Key certDetails) (Some staticDecrypted) \<longrightarrow>
            doHandshake E cli kp = (Some ErrCertKeyMismatch, cli, ev1 @ [EvDecrypt certCt])
          \<and> EvFinish \<notin> set (ev1 @ [EvDecrypt certCt]))
       \<and> (bytes_Equal (Key certDetails) (Some staticDecrypted) \<longrightarrow>
            fst (doHandshake E cli kp) \<noteq> Some ErrCertKeyMismatch)"
proof -
  have mismatch: "doHandshake E cli kp = (Some ErrCertKeyMismatch, cli, ev1 @ [EvDecrypt certCt])
          \<and> EvFinish \<notin> set (ev1 @ [EvDecrypt certCt])"
    if "\<not> bytes_Equal (Key certDetails) (Some staticDecrypted)"
    using that assms hello_log [OF assms(1)]
    by (simp add: doHandshake_def hs_certificate_def slice_contents_def)
  have match: "fst (doHandshake E cli kp) \<noteq> Some ErrCertKeyMismatch"
    if "bytes_Equal (Key certDetails) (Some staticDecrypted)"
  proof -
    from that assms
    have "hs_certificate E nh certCt staticDecrypted = (Inr nh', [EvDecrypt certCt])"
      by (simp add: hs_certificate_def slice_contents_def)
    with assms(1) have "fst (doHandshake E cli kp) = fst (hs_client_finish E cli nh' eph)"
      by (simp add: doHandshake_def split: prod.splits)
    moreover have "fst (hs_client_finish E cli nh' eph) \<noteq> Some ErrCertKeyMismatch"
      using finish_not_mismatch [of E cli nh' eph] by (metis prod.collapse)
    ultimately show ?thesis by simp
  qed
  from mismatch match show ?thesis by blast
qed

theorem cert_key_mismatch_aborts_witness:
  "doHandshake mitm_env demo_cli (demo_keypair 7) =
     (Some ErrCertKeyMismatch, demo_cli,
      [EvStart [1] [2], EvAuthenticate (replicate 32 27), EvSendAndReceiveFrame (replicate 32 27),
       EvAuthenticate (replicate 32 3), EvMixSharedSecretIntoKey (replicate 32 47) (replicate 32 3),
       EvDecrypt (replicate 32 4), EvMixSharedSecretIntoKey (replicate 32 47) (replicate 32 4),
       EvDecrypt [5]])
   \<and> fst (doHandshake demo_env demo_cli (demo_keypair 7)) \<noteq> Some ErrCertKeyMismatch"
proof -
  have h1: "hs_server_hello mitm_env (demo_keypair 7) =
      (Inr (5, replicate 32 4, replicate 32 3, [5]),
      [EvStart [1] [2], EvAuthenticate (replicate 32 27), EvSendAndReceiveFrame (replicate 32 27),
       EvAuthenticate (replicate 32 3), EvMixSharedSecretIntoKey (replicate 32 47) (replicate 32 3),
       EvDecrypt (replicate 32 4), EvMixSharedSecretIntoKey (replicate 32 47) (replicate 32 4)])"
    by (simp add: hs_defs demo_defs Let_def)
  have h2: "nh_Decrypt mitm_env 5 [5] = Inr ([5], 6)"
    by (simp add: demo_defs)
  have h3: "Unmarshal_NoiseCertificate mitm_env [5] = Inr \<lparr>Details = Some [6], Signature = Some [7]\<rparr>"
    by (simp add: demo_defs)
  have h4: "Unmarshal_NoiseCertificateDetails mitm_env [6] = Inr \<lparr>Key = Some (replicate 32 8)\<rparr>"
    by (simp add: demo_defs)
  have g1: "hs_server_hello demo_env (demo_keypair 7) =
      (Inr (5, replicate 32 4, replicate 32 3, [5]),
      [EvStart [1] [2], EvAuthenticate (replicate 32 27), EvSendAndReceiveFrame (replicate 32 27),
       EvAuthenticate (replicate 32 3), EvMixSharedSecretIntoKey (replicate 32 47) (replicate 32 3),
       EvDecrypt (replicate 32 4), EvMixSharedSecretIntoKey (replicate 32 47) (replicate 32 4)])"
    by (simp add: hs_defs demo_defs Let_def)
  have g2: "nh_Decrypt demo_env 5 [5] = Inr ([5], 6)"
    by (simp add: demo_defs)
  have g3: "Unmarshal_NoiseCertificate demo_env [5] = Inr \<lparr>Details = Some [6], Signature = Some [7]\<rparr>"
    by (simp add: demo_defs)
  have g4: "Unmarshal_NoiseCertificateDetails demo_env [6] = Inr \<lparr>Key = Some (replicate 32 4)\<rparr>"
    by (simp add: demo_defs)
  show ?thesis
    using cert_key_mismatch_aborts [where cli = demo_cli and sg = "[7]", OF h1 h2 h3 _ _ h4]
          cert_key_mismatch_aborts [where cli = demo_cli and sg = "[7]", OF g1 g2 g3 _ _ g4]
    by (simp add: bytes_Equal_def slice_contents_def)
qed

subsection \<open>Shape of the server hello\<close>

text \<open>Claim C7. Take a run in which the client hello was marshalled and sent and the
  response was unmarshalled. If the server ephemeral is not 32 bytes long, or the static
  ciphertext or the certificate ciphertext is absent, \<^verbatim>\<open>doHandshake\<close> returns
  \<open>ErrMissingParts\<close>, leaves the client as it was, and has made exactly one exchange on
  the frame socket (the log holds nothing after it: no retry). If the shape is right,
  the run does not return that error.\<close>
theorem malformed_response_rejected:
  assumes "Marshal_ClientHello E (Pub kp) = Inr data"
      and "fs_SendAndReceiveFrame E data = Inr resp"
      and "Unmarshal_HandshakeMessage E resp = Inr msg"
  shows "(len (GetEphemeral (GetServerHello msg)) \<noteq> 32 \<or> GetStatic (GetServerHello msg) = None
            \<or> GetPayload (GetServerHello msg) = None
          \<longrightarrow> doHandshake E cli kp =
               (Some ErrMissingParts, cli,
                [EvStart (NoiseStartPattern E) (fs_Header E), EvAuthenticate (Pub kp),
                 EvSendAndReceiveFrame data]))
       \<and> (len (GetEphemeral (GetServerHello msg)) = 32 \<and> GetStatic (GetServerHello msg) \<noteq> None
            \<and> GetPayload (GetServerHello msg) \<noteq> None
          \<longrightarrow> fst (doHandshake E cli kp) \<noteq> Some ErrMissingParts)"
proof (intro conjI impI)
  assume bad: "len (GetEphemeral (GetServerHello msg)) \<noteq> 32 \<or> GetStatic (GetServerHello msg) = None
            \<or> GetPayload (GetServerHello msg) = None"
  have "hs_server_hello E kp = (Inl ErrMissingParts,
       [EvStart (NoiseStartPattern E) (fs_Header E), EvAuthenticate (Pub kp), EvSendAndReceiveFrame data])"
    using assms bad by (auto simp: hs_server_hello_def Let_def)
  then show "doHandshake E cli kp = (Some ErrMissingParts, cli,
       [EvStart (NoiseStartPattern E) (fs_Header E), EvAuthenticate (Pub kp), EvSendAndReceiveFrame data])"
    by (simp add: doHandshake_def)
next
  assume ok: "len (GetEphemeral (GetServerHello msg)) = 32 \<and> GetStatic (GetServerHello msg) \<noteq> None
            \<and> GetPayload (GetServerHello msg) \<noteq> None"
  have a: "fst (hs_server_hello E kp) \<noteq> Inl ErrMissingParts"
    using assms ok by (auto simp: hs_server_hello_def Let_def split: sum.splits prod.splits)
  have mp: "fails_by_static_decrypt ErrMissingParts"
    by (simp add: fails_by_static_decrypt_def)
  have b: "fst (hs_certificate E nh c s) \<noteq> Inl ErrMissingParts" for nh c s
  proof
    assume "fst (hs_certificate E nh c s) = Inl ErrMissingParts"
    then have "hs_certificate E nh c s = (Inl ErrMissingParts, snd (hs_certificate E nh c s))"
      by (metis prod.collapse)
    from cert_err [OF this] show False by (simp add: mp)
  qed
  have c: "fst (hs_client_finish E cli nh e) \<noteq> Some ErrMissingParts" for nh e
  proof
    assume "fst (hs_client_finish E cli nh e) = Some ErrMissingParts"
    then have "hs_client_finish E cli nh e = (Some ErrMissingParts,
        fst (snd (hs_client_finish E cli nh e)), snd (snd (hs_client_finish E cli nh e)))"
      by (metis prod.collapse)
    from finish_err [OF this] show False by (simp add: mp)
  qed
  show "fst (doHandshake E cli kp) \<noteq> Some ErrMissingParts"
  proof (cases "hs_server_hello E kp")
    case (Pair r1 ev1)
    show ?thesis
    proof (cases r1)
      case (Inl e)
      with Pair a show ?thesis by (simp add: doHandshake_def)
    next
      case (Inr q)
      obtain nh sd eph cc where q: "q = (nh, sd, eph, cc)" by (cases q) auto
      show ?thesis
      proof (cases "hs_certificate E nh cc sd")
        case (Pair r2 ev2)
        note P2 = this
        show ?thesis
        proof (cases r2)
          case (Inl e)
          with P2 b[of nh cc sd] \<open>hs_server_hello E kp = (r1, ev1)\<close> Inr q show ?thesis
            by (simp add: doHandshake_def)
        next
          case (Inr nh')
          with P2 c[of nh' eph] \<open>hs_server_hello E kp = (r1, ev1)\<close> \<open>r1 = Inr q\<close> q show ?thesis
            by (auto simp add: doHandshake_def split: prod.splits)
        qed
      qed
    qed
  qed
qed

theorem malformed_response_rejected_witness:
  "doHandshake short_ephemeral_env demo_cli (demo_keypair 7) =
     (Some ErrMissingParts, demo_cli,
      [EvStart [1] [2], EvAuthenticate (replicate 32 27), EvSendAndReceiveFrame (replicate 32 27)])
   \<and> fst (doHandshake demo_env demo_cli (demo_keypair 7)) \<noteq> Some ErrMissingParts"
proof -
  have h1: "Marshal_ClientHello short_ephemeral_env (Pub (demo_keypair 7)) = Inr (replicate 32 27)"
    by (simp add: demo_defs)
  have h2: "fs_SendAndReceiveFrame short_ephemeral_env (replicate 32 27) = Inr [9]"
    by (simp add: demo_defs)
  have h3: "Unmarshal_HandshakeMessage short_ephemeral_env [9] = Inr \<lparr>ServerHelloField =
        Some \<lparr>Ephemeral = Some (replicate 31 3), Static = Some (replicate 32 4), Payload = Some [5]\<rparr>\<rparr>"
    by (simp add: demo_defs)
  have g1: "Marshal_ClientHello demo_env (Pub (demo_keypair 7)) = Inr (replicate 32 27)"
    by (simp add: demo_defs)
  have g2: "fs_SendAndReceiveFrame demo_env (replicate 32 27) = Inr [9]"
    by (simp add: demo_defs)
  have g3: "Unmarshal_HandshakeMessage demo_env [9] = Inr \<lparr>ServerHelloField =
        Some \<lparr>Ephemeral = Some (replicate 32 3), Static = Some (replicate 32 4), Payload = Some [5]\<rparr>\<rparr>"
    by (simp add: demo_defs)
  show ?thesis
    using malformed_response_rejected [OF h1 h2 h3, of demo_cli]
          malformed_response_rejected [OF g1 g2 g3, of demo_cli]
    by (simp add: GetServerHello_def GetEphemeral_def GetStatic_def GetPayload_def len_def demo_defs)
qed

subsection \<open>Early failures leave the client alone\<close>

text \<open>Claim C6. If \<^verbatim>\<open>doHandshake\<close> returns one of the errors raised up to the decryption
  of the server static ciphertext (marshal or transport failure, malformed response,
  failed mix of the server ephemeral, failed decryption or wrong length of the static
  key), the client is returned unchanged, so nothing on \<^verbatim>\<open>cli.Store\<close> was generated or
  assigned, and no key or random generator was called. On every error return
  \<^verbatim>\<open>cli.socket\<close> is the one from before the call.\<close>
theorem early_failure_leaves_client_untouched:
  assumes "doHandshake E cli kp = (Some err, cli', tr)"
  shows "(fails_by_static_decrypt err \<longrightarrow>
            cli' = cli \<and> EvNewKeyPair \<notin> set tr \<and> EvCreateSignedPreKey \<notin> set tr
            \<and> EvUint32 \<notin> set tr \<and> EvRandRead \<notin> set tr)
       \<and> socket cli' = socket cli"
  using assms
  by (auto simp: doHandshake_def split: sum.splits prod.splits
      dest: hello_log cert_err finish_err finish_socket)

theorem early_failure_leaves_client_untouched_witness:
  "doHandshake short_ephemeral_env demo_cli (demo_keypair 7) =
     (Some ErrMissingParts, demo_cli,
      [EvStart [1] [2], EvAuthenticate (replicate 32 27), EvSendAndReceiveFrame (replicate 32 27)])
   \<and> fails_by_static_decrypt ErrMissingParts
   \<and> socket demo_cli = (None :: nat option)"
proof -
  have h: "doHandshake short_ephemeral_env demo_cli (demo_keypair 7) =
     (Some ErrMissingParts, demo_cli,
      [EvStart [1] [2], EvAuthenticate (replicate 32 27), EvSendAndReceiveFrame (replicate 32 27)])"
    by (simp add: hs_defs demo_defs Let_def)
  show ?thesis
    using h early_failure_leaves_client_untouched [OF h]
    by (simp add: fails_by_static_decrypt_def demo_cli_def)
qed

subsection \<open>Order of encryption and mix in the final message\<close>

text \<open>Claim C2, as stated, fails: in the sample run the noise public key is encrypted
  first and the mix of the noise private key with the server ephemeral comes after it,
  not before.\<close>
theorem mix_before_encrypt_counterexample:
  "\<not> precedes (EvMixSharedSecretIntoKey (replicate 32 40) (replicate 32 3))
               (EvEncrypt (replicate 32 20))
               (snd (snd (doHandshake demo_env demo_cli (demo_keypair 7))))
   \<and> precedes (EvEncrypt (replicate 32 20))
              (EvMixSharedSecretIntoKey (replicate 32 40) (replicate 32 3))
              (snd (snd (doHandshake demo_env demo_cli (demo_keypair 7))))"
  by (simp add: hs_defs demo_defs Let_def)

text \<open>Claim C2, amended. In every run that gets past the certificate check, the first
  call of \<^verbatim>\<open>nh.Encrypt\<close> is that of the noise public key of the device, and the call
  logged right after it is \<^verbatim>\<open>MixSharedSecretIntoKey\<close> with the noise private key and the
  server ephemeral: the static key is encrypted before the mix, and the client payload
  after it.\<close>
theorem static_key_encrypted_before_mix:
  assumes "hs_server_hello E kp = (Inr (nh, staticDecrypted, eph, certCt), ev1)"
      and "hs_certificate E nh certCt staticDecrypted = (Inr nh', ev2)"
      and "doHandshake E cli kp = (err, cli', tr)"
  shows "\<exists>noiseKey pre post.
           NoiseKey (Store cli') = Some noiseKey
         \<and> tr = pre @ [EvEncrypt (Pub noiseKey), EvMixSharedSecretIntoKey (Priv noiseKey) eph] @ post
         \<and> (\<forall>x. EvEncrypt x \<notin> set pre)"
proof -
  obtain ev3 where f: "hs_client_finish E cli nh' eph = (err, cli', ev3)" and tr: "tr = ev1 @ ev2 @ ev3"
    using assms by (auto simp: doHandshake_def split: prod.splits)
  define noiseKey where "noiseKey = (case NoiseKey (Store cli) of None \<Rightarrow> NewKeyPair E 0 | Some k \<Rightarrow> k)"
  define gen where "gen = (if NoiseKey (Store cli) = None then [EvNewKeyPair] else [])"
  have nk: "NoiseKey (Store cli') = Some noiseKey"
    using finish_noise_key [OF f] by (simp add: noiseKey_def)
  obtain post where ev3:
    "ev3 = gen @ [EvEncrypt (Pub noiseKey), EvMixSharedSecretIntoKey (Priv noiseKey) eph] @ post"
    using finish_log_prefix [OF f] unfolding noiseKey_def gen_def by blast
  have pre: "\<forall>x. EvEncrypt x \<notin> set (ev1 @ ev2 @ gen)"
    using hello_log [OF assms(1)] certificate_log [OF assms(2)] by (auto simp: gen_def)
  have "tr = (ev1 @ ev2 @ gen) @ [EvEncrypt (Pub noiseKey), EvMixSharedSecretIntoKey (Priv noiseKey) eph] @ post"
    using tr ev3 by simp
  with nk pre show ?thesis by blast
qed

theorem static_key_encrypted_before_mix_witness:
  "\<exists>pre post.
      snd (snd (doHandshake demo_env demo_cli (demo_keypair 7))) =
        pre @ [EvEncrypt (replicate 32 20),
               EvMixSharedSecretIntoKey (replicate 32 40) (replicate 32 3)] @ post
    \<and> (\<forall>x. EvEncrypt x \<notin> set pre)"
proof -
  have h1: "hs_server_hello demo_env (demo_keypair 7) =
      (Inr (5, replicate 32 4, replicate 32 3, [5]),
      [EvStart [1] [2], EvAuthenticate (replicate 32 27), EvSendAndReceiveFrame (replicate 32 27),
       EvAuthenticate (replicate 32 3), EvMixSharedSecretIntoKey (replicate 32 47) (replicate 32 3),
       EvDecrypt (replicate 32 4), EvMixSharedSecretIntoKey (replicate 32 47) (replicate 32 4)])"
    by (simp add: hs_defs demo_defs Let_def)
  have h2: "hs_certificate demo_env 5 [5] (replicate 32 4) = (Inr 6, [EvDecrypt [5]])"
    by (simp add: hs_defs demo_defs Let_def)
  have h3: "doHandshake demo_env demo_cli (demo_keypair 7) =
      (fst (doHandshake demo_env demo_cli (demo_keypair 7)),
       fst (snd (doHandshake demo_env demo_cli (demo_keypair 7))),
       snd (snd (doHandshake demo_env demo_cli (demo_keypair 7))))"
    by simp
  have nk: "NoiseKey (Store (fst (snd (doHandshake demo_env demo_cli (demo_keypair 7)))))
      = Some \<lparr>Pub = replicate 32 20, Priv = replicate 32 40\<rparr>"
    by (simp add: hs_defs demo_defs Let_def)
  show ?thesis
    using static_key_encrypted_before_mix [OF h1 h2 h3] nk by auto
qed

subsection \<open>Lazy creation of the device keys\<close>

text \<open>Claim C3, as stated, fails for the adv secret: in the sample run whose
  \<^verbatim>\<open>nh.Finish\<close> fails the final message has been sent and the device still has no adv
  secret, and in the successful sample run \<^verbatim>\<open>rand.Read\<close> is called after the final
  message was sent.\<close>
theorem adv_secret_after_send_counterexample:
  "fst (doHandshake finish_fails_env demo_cli (demo_keypair 7)) = Some (ErrCreateNoiseSocket ''closed'')
   \<and> EvSendFrame (replicate 32 20 @ replicate 32 10)
        \<in> set (snd (snd (doHandshake finish_fails_env demo_cli (demo_keypair 7))))
   \<and> AdvSecretKey (Store (fst (snd (doHandshake finish_fails_env demo_cli (demo_keypair 7))))) = None
   \<and> precedes (EvSendFrame (replicate 32 20 @ replicate 32 10)) EvRandRead
        (snd (snd (doHandshake demo_env demo_cli (demo_keypair 7))))"
  by (simp add: hs_defs demo_defs Let_def)

text \<open>Claim C3, amended. A field of \<^verbatim>\<open>cli.Store\<close> that is present before the call (non-nil
  noise key, identity key, signed prekey or adv secret, non-zero registration id) is the
  same after it, whatever the outcome. Whenever the final message was sent, the noise
  key, the identity key and the signed prekey are present and the registration id is
  the old one or, if that was zero, the generated one. In a successful run the calls
  are, in this order: the noise key is generated if missing, the static key is encrypted
  and mixed, the identity key, the signed prekey and the registration id are generated if
  missing, the payload is encrypted, the final message is sent, the handshake is
  finished, and only then the adv secret is generated if missing; each generator is
  called exactly when its field was missing.\<close>
theorem device_keys_created_when_missing:
  assumes "doHandshake E cli kp = (err, cli', tr)"
  shows "(NoiseKey (Store cli) \<noteq> None \<longrightarrow> NoiseKey (Store cli') = NoiseKey (Store cli))
   \<and> (IdentityKey (Store cli) \<noteq> None \<longrightarrow> IdentityKey (Store cli') = IdentityKey (Store cli))
   \<and> (SignedPreKey (Store cli) \<noteq> None \<longrightarrow> SignedPreKey (Store cli') = SignedPreKey (Store cli))
   \<and> (RegistrationID (Store cli) \<noteq> 0 \<longrightarrow> RegistrationID (Store cli') = RegistrationID (Store cli))
   \<and> (AdvSecretKey (Store cli) \<noteq> None \<longrightarrow> AdvSecretKey (Store cli') = AdvSecretKey (Store cli))
   \<and> (\<forall>d. EvSendFrame d \<in> set tr \<longrightarrow>
          NoiseKey (Store cli') \<noteq> None \<and> IdentityKey (Store cli') \<noteq> None
        \<and> SignedPreKey (Store cli') \<noteq> None
        \<and> RegistrationID (Store cli') =
            (if RegistrationID (Store cli) = 0 then Uint32 E else RegistrationID (Store cli)))
   \<and> (err = None \<longrightarrow>
        (\<exists>pre noiseKey eph payload data.
            EvNewKeyPair \<notin> set pre \<and> EvCreateSignedPreKey \<notin> set pre \<and> EvUint32 \<notin> set pre
          \<and> EvRandRead \<notin> set pre \<and> EvFinish \<notin> set pre
          \<and> (\<forall>x. EvEncrypt x \<notin> set pre) \<and> (\<forall>x. EvSendFrame x \<notin> set pre)
          \<and> NoiseKey (Store cli') = Some noiseKey \<and> AdvSecretKey (Store cli') \<noteq> None
          \<and> tr = pre
              @ (if NoiseKey (Store cli) = None then [EvNewKeyPair] else [])
              @ [EvEncrypt (Pub noiseKey), EvMixSharedSecretIntoKey (Priv noiseKey) eph]
              @ (if IdentityKey (Store cli) = None then [EvNewKeyPair] else [])
              @ (if SignedPreKey (Store cli) = None then [EvCreateSignedPreKey] else [])
              @ (if RegistrationID (Store cli) = 0 then [EvUint32] else [])
              @ [EvEncrypt payload, EvSendFrame data, EvFinish]
              @ (if AdvSecretKey (Store cli) = None then [EvRandRead] else [])))"
proof (cases "hs_server_hello E kp")
  case (Pair r1 ev1)
  note P1 = this
  show ?thesis
  proof (cases r1)
    case (Inl e)
    with P1 assms have "cli' = cli" "tr = ev1" "err = Some e"
      by (auto simp: doHandshake_def)
    with hello_log [OF P1] show ?thesis by auto
  next
    case (Inr q)
    obtain nh sd eph cc where q: "q = (nh, sd, eph, cc)" by (cases q) auto
    show ?thesis
    proof (cases "hs_certificate E nh cc sd")
      case (Pair r2 ev2)
      note P2 = this
      show ?thesis
      proof (cases r2)
        case (Inl e)
        with P1 P2 Inr q assms have "cli' = cli" "tr = ev1 @ ev2" "err = Some e"
          by (auto simp: doHandshake_def)
        with hello_log [OF P1] certificate_log [OF P2] show ?thesis by auto
      next
        case (Inr nh')
        with P1 P2 \<open>r1 = Inr q\<close> q assms obtain ev3 where
          f: "hs_client_finish E cli nh' eph = (err, cli', ev3)" and tr: "tr = ev1 @ ev2 @ ev3"
          by (auto simp: doHandshake_def split: prod.splits)
        have sent: "EvSendFrame d \<in> set tr \<Longrightarrow> EvSendFrame d \<in> set ev3" for d
          using tr hello_log [OF P1] certificate_log [OF P2] by auto
        have pre: "EvNewKeyPair \<notin> set (ev1 @ ev2) \<and> EvCreateSignedPreKey \<notin> set (ev1 @ ev2)
          \<and> EvUint32 \<notin> set (ev1 @ ev2)
          \<and> EvRandRead \<notin> set (ev1 @ ev2) \<and> EvFinish \<notin> set (ev1 @ ev2)
          \<and> (\<forall>x. EvEncrypt x \<notin> set (ev1 @ ev2)) \<and> (\<forall>x. EvSendFrame x \<notin> set (ev1 @ ev2))"
          using hello_log [OF P1] certificate_log [OF P2] by auto
        have ok: ?thesis if "err = None"
        proof -
          from f that have "hs_client_finish E cli nh' eph = (None, cli', ev3)" by simp
          from finish_success [OF this] obtain noiseKey payload data where
            s: "NoiseKey (Store cli') = Some noiseKey" "AdvSecretKey (Store cli') \<noteq> None"
            "ev3 = (if NoiseKey (Store cli) = None then [EvNewKeyPair] else [])
              @ [EvEncrypt (Pub noiseKey), EvMixSharedSecretIntoKey (Priv noiseKey) eph]
              @ (if IdentityKey (Store cli) = None then [EvNewKeyPair] else [])
              @ (if SignedPreKey (Store cli) = None then [EvCreateSignedPreKey] else [])
              @ (if RegistrationID (Store cli) = 0 then [EvUint32] else [])
              @ [EvEncrypt payload, EvSendFrame data, EvFinish]
              @ (if AdvSecretKey (Store cli) = None then [EvRandRead] else [])"
            by blast
          have "tr = (ev1 @ ev2) @ ev3" using tr by simp
          with s pre have "\<exists>pre noiseKey eph payload data.
            EvNewKeyPair \<notin> set pre \<and> EvCreateSignedPreKey \<notin> set pre \<and> EvUint32 \<notin> set pre
          \<and> EvRandRead \<notin> set pre \<and> EvFinish \<notin> set pre
          \<and> (\<forall>x. EvEncrypt x \<notin> set pre) \<and> (\<forall>x. EvSendFrame x \<notin> set pre)
          \<and> NoiseKey (Store cli') = Some noiseKey \<and> AdvSecretKey (Store cli') \<noteq> None
          \<and> tr = pre
              @ (if NoiseKey (Store cli) = None then [EvNewKeyPair] else [])
              @ [EvEncrypt (Pub noiseKey), EvMixSharedSecretIntoKey (Priv noiseKey) eph]
              @ (if IdentityKey (Store cli) = None then [EvNewKeyPair] else [])
              @ (if SignedPreKey (Store cli) = None then [EvCreateSignedPreKey] else [])
              @ (if RegistrationID (Store cli) = 0 then [EvUint32] else [])
              @ [EvEncrypt payload, EvSendFrame data, EvFinish]
              @ (if AdvSecretKey (Store cli) = None then [EvRandRead] else [])"
            by blast
          with finish_preserves [OF f] finish_sent [OF f] sent show ?thesis
            by blast
        qed
        show ?thesis
        proof (cases err)
          case None
          with ok show ?thesis by simp
        next
          case (Some e)
          with finish_preserves [OF f] finish_sent [OF f] sent show ?thesis by blast
        qed
      qed
    qed
  qed
qed

theorem device_keys_created_when_missing_witness:
  "fst (doHandshake demo_env demo_cli (demo_keypair 7)) = None
   \<and> NoiseKey (Store (fst (snd (doHandshake demo_env demo_cli (demo_keypair 7))))) \<noteq> None
   \<and> IdentityKey (Store (fst (snd (doHandshake demo_env demo_cli (demo_keypair 7))))) \<noteq> None
   \<and> SignedPreKey (Store (fst (snd (doHandshake demo_env demo_cli (demo_keypair 7))))) \<noteq> None
   \<and> RegistrationID (Store (fst (snd (doHandshake demo_env demo_cli (demo_keypair 7))))) = 77
   \<and> AdvSecretKey (Store (fst (snd (doHandshake demo_env demo_cli (demo_keypair 7))))) \<noteq> None"
proof -
  have h: "doHandshake demo_env demo_cli (demo_keypair 7) =
      (fst (doHandshake demo_env demo_cli (demo_keypair 7)),
       fst (snd (doHandshake demo_env demo_cli (demo_keypair 7))),
       snd (snd (doHandshake demo_env demo_cli (demo_keypair 7))))"
    by simp
  have ok: "fst (doHandshake demo_env demo_cli (demo_keypair 7)) = None"
    by (simp add: hs_defs demo_defs Let_def)
  have sent: "EvSendFrame (replicate 32 20 @ replicate 32 10)
      \<in> set (snd (snd (doHandshake demo_env demo_cli (demo_keypair 7))))"
    by (simp add: hs_defs demo_defs Let_def)
  have e: "RegistrationID (Store demo_cli) = 0" "Uint32 demo_env = 77"
    by (simp_all add: demo_defs)
  show ?thesis
    using device_keys_created_when_missing [OF h] ok sent e by auto
qed

section \<open>Properties of the migrator and the schema\<close>

subsection \<open>Statements\<close>

lemma dead_is_row: "dead d n P c r \<Longrightarrow> r \<in> set (rows_of d c)"
  by (induction rule: dead.induct) auto

lemma dead_no_children:
  assumes "\<forall>c\<in>set (names d). \<forall>fk\<in>set (td_foreign_keys (t_def (table_of d c))). fk_table fk \<noteq> n"
  shows "dead d n P c r \<longleftrightarrow> c = n \<and> r \<in> set (rows_of d n) \<and> P r"
proof
  assume "dead d n P c r"
  then show "c = n \<and> r \<in> set (rows_of d n) \<and> P r"
  proof (induction rule: dead.induct)
    case (target r)
    then show ?case by simp
  next
    case (cascade r c fk p m)
    from cascade.hyps(1) have "c \<in> set (names d)"
      by (auto simp: rows_of_def split: if_splits)
    with assms cascade.hyps(2) have "fk_table fk \<noteq> n" by blast
    with cascade show ?case by simp
  qed
next
  assume "c = n \<and> r \<in> set (rows_of d n) \<and> P r"
  then show "dead d n P c r" by (auto intro: dead.target)
qed

lemma delete_where_rows:
  "delete_where n P d = Inr d' \<Longrightarrow>
     names d' = names d
   \<and> (\<forall>c. rows_of d' c = filter (\<lambda>r. \<not> dead d n P c r) (rows_of d c))
   \<and> (\<forall>c. t_def (table_of d' c) = t_def (table_of d c))"
  by (auto simp: delete_where_def remove_dead_def rows_of_def split: if_splits)

lemma delete_all_rows:
  assumes "delete_where n (\<lambda>_. True) d = Inr d'"
  shows "rows_of d' n = [] \<and> n \<in> set (names d')"
proof -
  have "\<forall>r \<in> set (rows_of d n). dead d n (\<lambda>_. True) n r"
    by (auto intro: dead.target)
  then have "filter (\<lambda>r. \<not> dead d n (\<lambda>_. True) n r) (rows_of d n) = []"
    by (simp add: filter_empty_conv)
  moreover have "n \<in> set (names d')"
    using assms by (auto simp: delete_where_def remove_dead_def split: if_splits)
  ultimately show ?thesis using delete_where_rows [OF assms] by simp
qed

lemma col_complete_row:
  "c \<in> set (map col_name cs) \<Longrightarrow> map_of r c = Some v \<Longrightarrow>
   col (complete_row (TableDef nm cs pk fks) r) c = v"
  by (induction cs) (auto simp: col_def complete_row_def)

lemma insert_row_rows:
  assumes "insert_row n r d = Inr d'"
  shows "names d' = names d \<and> n \<in> set (names d)
       \<and> rows_of d' n = rows_of d n @ [complete_row (t_def (table_of d n)) r]
       \<and> (\<forall>c \<in> set (map fst r). c \<in> set (map col_name (td_columns (t_def (table_of d n)))))
       \<and> row_ok (t_def (table_of d n)) (complete_row (t_def (table_of d n)) r)"
  using assms
  by (auto simp: insert_row_def rows_of_def Let_def list_all_iff split: if_splits)

lemma setVersion_scan:
  assumes "setVersion E tx v = Inr tx'"
  shows "scan_version tx' = Some v"
proof -
  from assms obtain tx1 where
    d: "delete_where ''whatsmeow_version'' (\<lambda>_. True) tx = Inr tx1" and
    i: "insert_row ''whatsmeow_version'' [(''version'', VInt v)] tx1 = Inr tx'"
    by (auto simp: setVersion_def split: option.splits sum.splits)
  let ?td = "t_def (table_of tx1 ''whatsmeow_version'')"
  from insert_row_rows [OF i] delete_all_rows [OF d]
  have rows: "rows_of tx' ''whatsmeow_version'' = [complete_row ?td [(''version'', VInt v)]]"
    and c: "''version'' \<in> set (map col_name (td_columns ?td))"
    by auto
  have "col (complete_row ?td [(''version'', VInt v)]) ''version'' = VInt v"
    using col_complete_row [of "''version''" "td_columns ?td" "[(''version'', VInt v)]" "VInt v"
        "td_name ?td" "td_primary_key ?td" "td_foreign_keys ?td"] c
    by simp
  with rows show ?thesis by (simp add: scan_version_def)
qed

lemma scan_version_exists: "scan_version d = Some v \<Longrightarrow> ''whatsmeow_version'' \<in> set (names d)"
  by (auto simp: scan_version_def rows_of_def split: if_splits list.splits)

lemma create_if_exists: "td_name td \<in> set (names d) \<Longrightarrow> create_table_if_not_exists td d = d"
  by (simp add: create_table_if_not_exists_def)

lemma getVersion_reads:
  assumes "scan_version d = Some v" "create_version_fault E = None" "query_version_fault E = None"
  shows "getVersion E d = (Inr v, d)"
  using assms scan_version_exists [OF assms(1)]
  by (simp add: getVersion_def create_if_exists whatsmeow_version_def)

lemma getVersion_ok:
  assumes "getVersion E d = (Inr v, d0)"
  shows "d0 = create_table_if_not_exists whatsmeow_version d
       \<and> ''whatsmeow_version'' \<in> set (names d0)
       \<and> create_version_fault E = None
       \<and> v = (case query_version_fault E of Some _ \<Rightarrow> 0
               | None \<Rightarrow> (case scan_version d0 of None \<Rightarrow> 0 | Some x \<Rightarrow> x))"
  using assms
  by (auto simp: getVersion_def Let_def create_table_if_not_exists_def whatsmeow_version_def
      split: option.splits)

lemma getVersion_again:
  assumes "''whatsmeow_version'' \<in> set (names d)" "create_version_fault E = None"
  shows "getVersion E d = (Inr (case query_version_fault E of Some _ \<Rightarrow> 0
               | None \<Rightarrow> (case scan_version d of None \<Rightarrow> 0 | Some x \<Rightarrow> x)), d)"
  using assms
  by (simp add: getVersion_def Let_def create_table_if_not_exists_def whatsmeow_version_def)

lemma delete_where_no_children:
  assumes "\<forall>c\<in>set (names d). \<forall>fk\<in>set (td_foreign_keys (t_def (table_of d c))). fk_table fk \<noteq> n"
  shows "delete_where n P d =
     (if n \<notin> set (names d) then Inl ''relation does not exist''
      else Inr (d\<lparr>table_of := (table_of d)
                  (n := Table (t_def (table_of d n)) (filter (\<lambda>r. \<not> P r) (t_rows (table_of d n))))\<rparr>))"
proof (cases "n \<in> set (names d)")
  case False
  then show ?thesis by (simp add: delete_where_def)
next
  case True
  note dn = dead_no_children [OF assms]
  have nb: "\<not> blocked d n P"
    unfolding blocked_def using assms dn by blast
  have "(\<lambda>c. Table (t_def (table_of d c)) (filter (\<lambda>r. \<not> dead d n P c r) (t_rows (table_of d c))))
      = (table_of d)(n := Table (t_def (table_of d n)) (filter (\<lambda>r. \<not> P r) (t_rows (table_of d n))))"
  proof
    fix c
    show "Table (t_def (table_of d c)) (filter (\<lambda>r. \<not> dead d n P c r) (t_rows (table_of d c)))
      = ((table_of d)(n := Table (t_def (table_of d n)) (filter (\<lambda>r. \<not> P r) (t_rows (table_of d n))))) c"
    proof (cases "c = n")
      case True
      have "filter (\<lambda>r. \<not> dead d n P n r) (t_rows (table_of d n))
          = filter (\<lambda>r. \<not> P r) (t_rows (table_of d n))"
        using \<open>n \<in> set (names d)\<close>
        by (intro filter_cong) (auto simp: dn rows_of_def)
      with True show ?thesis by simp
    next
      case False
      then show ?thesis by (simp add: dn)
    qed
  qed
  with True nb show ?thesis by (simp add: delete_where_def remove_dead_def)
qed

subsection \<open>The statements keep the database consistent\<close>

text \<open>Creating a table, inserting a row and deleting rows lead from a consistent
  database to a consistent one, so every database built from the empty one by these
  statements is consistent.\<close>

lemma consistent_iff:
  "consistent d \<longleftrightarrow>
     (\<forall>c \<in> set (names d). \<forall>r \<in> set (rows_of d c).
        row_ok (t_def (table_of d c)) r
        \<and> (\<forall>fk \<in> set (td_foreign_keys (t_def (table_of d c))). fk_ok d fk r))"
  by (simp add: consistent_def list_all_iff)

lemma fk_ok_mono:
  "fk_ok d fk r \<Longrightarrow> set (rows_of d (fk_table fk)) \<subseteq> set (rows_of d' (fk_table fk))
     \<Longrightarrow> fk_ok d' fk r"
  by (auto simp: fk_ok_def list_ex_iff)

lemma empty_db_consistent: "consistent empty_db"
  by (simp add: consistent_def empty_db_def)

lemma create_table_consistent:
  assumes "consistent d" "create_table td d = Inr d'"
  shows "consistent d'"
proof -
  from assms(2) have new: "td_name td \<notin> set (names d)"
    and d': "d' = d\<lparr>names := names d @ [td_name td],
                  table_of := (table_of d)(td_name td := Table td [])\<rparr>"
    by (auto simp: create_table_def split: if_splits)
  have rows: "rows_of d' c = rows_of d c" for c
    using new by (simp add: d' rows_of_def)
  have defs: "t_def (table_of d' c) = t_def (table_of d c)" if "c \<in> set (names d)" for c
    using new that by (auto simp: d')
  show ?thesis
    unfolding consistent_iff
  proof (intro ballI)
    fix c r
    assume c: "c \<in> set (names d')" and r: "r \<in> set (rows_of d' c)"
    from r rows have r': "r \<in> set (rows_of d c)" by simp
    then have c': "c \<in> set (names d)" by (auto simp: rows_of_def split: if_splits)
    from assms(1) c' r' have "row_ok (t_def (table_of d c)) r
        \<and> (\<forall>fk \<in> set (td_foreign_keys (t_def (table_of d c))). fk_ok d fk r)"
      unfolding consistent_iff by blast
    then show "row_ok (t_def (table_of d' c)) r
        \<and> (\<forall>fk \<in> set (td_foreign_keys (t_def (table_of d' c))). fk_ok d' fk r)"
      using defs [OF c'] rows by (auto intro: fk_ok_mono)
  qed
qed

lemma insert_row_consistent:
  assumes "consistent d" "insert_row n r d = Inr d'"
  shows "consistent d'"
proof -
  let ?td = "t_def (table_of d n)"
  let ?r = "complete_row ?td r"
  from assms(2) have n: "n \<in> set (names d)"
    and ok: "row_ok ?td ?r" and fks: "\<forall>fk \<in> set (td_foreign_keys ?td). fk_ok d fk ?r"
    and d': "d' = d\<lparr>table_of := (table_of d)(n := Table ?td (t_rows (table_of d n) @ [?r]))\<rparr>"
    by (auto simp: insert_row_def Let_def list_all_iff split: if_splits)
  have rows: "set (rows_of d' c) = set (rows_of d c) \<union> (if c = n then {?r} else {})" for c
    using n by (auto simp: d' rows_of_def)
  have defs: "t_def (table_of d' c) = t_def (table_of d c)" for c
    by (simp add: d')
  have mono: "fk_ok d fk x \<Longrightarrow> fk_ok d' fk x" for fk x
    by (rule fk_ok_mono) (auto simp: rows)
  show ?thesis
    unfolding consistent_iff
  proof (intro ballI)
    fix c x
    assume "c \<in> set (names d')" and x: "x \<in> set (rows_of d' c)"
    then have c: "c \<in> set (names d)" by (simp add: d')
    from x rows [of c] consider "x \<in> set (rows_of d c)" | "c = n" "x = ?r"
      by (auto split: if_splits)
    then show "row_ok (t_def (table_of d' c)) x
        \<and> (\<forall>fk \<in> set (td_foreign_keys (t_def (table_of d' c))). fk_ok d' fk x)"
    proof cases
      case 1
      with assms(1) c have "row_ok (t_def (table_of d c)) x
        \<and> (\<forall>fk \<in> set (td_foreign_keys (t_def (table_of d c))). fk_ok d fk x)"
        unfolding consistent_iff by blast
      then show ?thesis using defs mono by auto
    next
      case 2
      with ok fks show ?thesis using defs mono by auto
    qed
  qed
qed

lemma delete_where_consistent:
  assumes "consistent d" "delete_where n P d = Inr d'"
  shows "consistent d'"
proof -
  from assms(2) have nb: "\<not> blocked d n P"
    by (auto simp: delete_where_def split: if_splits)
  from delete_where_rows [OF assms(2)] have names: "names d' = names d"
    and rows: "rows_of d' c = filter (\<lambda>r. \<not> dead d n P c r) (rows_of d c)"
    and defs: "t_def (table_of d' c) = t_def (table_of d c)" for c
    by blast+
  show ?thesis
    unfolding consistent_iff
  proof (intro ballI conjI)
    fix c r
    assume "c \<in> set (names d')" and "r \<in> set (rows_of d' c)"
    then have c: "c \<in> set (names d)" and r: "r \<in> set (rows_of d c)"
      and alive: "\<not> dead d n P c r"
      by (simp_all add: names rows)
    from assms(1) c r have ok: "row_ok (t_def (table_of d c)) r"
      and fks: "\<forall>fk \<in> set (td_foreign_keys (t_def (table_of d c))). fk_ok d fk r"
      unfolding consistent_iff by blast+
    from ok show "row_ok (t_def (table_of d' c)) r" by (simp add: defs)
    fix fk
    assume "fk \<in> set (td_foreign_keys (t_def (table_of d' c)))"
    then have fk: "fk \<in> set (td_foreign_keys (t_def (table_of d c)))" by (simp add: defs)
    with fks have f: "fk_ok d fk r" by blast
    show "fk_ok d' fk r"
    proof (cases "Null \<in> set (key_values (fk_cols fk) r)")
      case True
      then show ?thesis by (simp add: fk_ok_def)
    next
      case False
      with f obtain p where p: "p \<in> set (rows_of d (fk_table fk))" "references fk r p"
        by (auto simp: fk_ok_def list_ex_iff)
      have "\<not> dead d n P (fk_table fk) p"
      proof
        assume "dead d n P (fk_table fk) p"
        with c r alive fk p have "blocked d n P" unfolding blocked_def by blast
        with nb show False by simp
      qed
      with p have "p \<in> set (rows_of d' (fk_table fk))" by (simp add: rows)
      with p(2) show ?thesis by (auto simp: fk_ok_def list_ex_iff)
    qed
  qed
qed

subsection \<open>The loop\<close>

lemma loop_cases:
  assumes "upgrade_loop E ups v d = (res, d', tr)"
  obtains
    (finished) "\<not> v < int (length ups)" "res = Done" "d' = d" "tr = []"
  | (begin_failed) err where "v < int (length ups)" "begin_fault E v = Some err"
      "res = Error err" "d' = d" "tr = [TxBegin v (Some err)]"
  | (panic) "v < int (length ups)" "begin_fault E v = None" "v < 0"
      "res = Panic" "d' = d" "tr = [TxBegin v None]"
  | (step_failed) err where "0 \<le> v" "v < int (length ups)" "begin_fault E v = None"
      "(ups ! nat v) E d = Inl err"
      "res = Error err" "d' = d" "tr = [TxBegin v None, TxApply v (Some err), TxRollback v]"
  | (set_failed) tx1 err where "0 \<le> v" "v < int (length ups)" "begin_fault E v = None"
      "(ups ! nat v) E d = Inr tx1" "setVersion E tx1 (v + 1) = Inl err"
      "res = Error err" "d' = d"
      "tr = [TxBegin v None, TxApply v None, TxSetVersion (v + 1) (Some err)]"
  | (commit_failed) tx1 tx2 err where "0 \<le> v" "v < int (length ups)" "begin_fault E v = None"
      "(ups ! nat v) E d = Inr tx1" "setVersion E tx1 (v + 1) = Inr tx2"
      "commit_fault E v = Some err"
      "res = Error err" "d' = d"
      "tr = [TxBegin v None, TxApply v None, TxSetVersion (v + 1) None, TxCommit v (Inl err)]"
  | (committed) tx1 tx2 tr' where "0 \<le> v" "v < int (length ups)" "begin_fault E v = None"
      "(ups ! nat v) E d = Inr tx1" "setVersion E tx1 (v + 1) = Inr tx2"
      "commit_fault E v = None"
      "upgrade_loop E ups (v + 1) tx2 = (res, d', tr')"
      "tr = [TxBegin v None, TxApply v None, TxSetVersion (v + 1) None, TxCommit v (Inr tx2)] @ tr'"
  using assms
  by (subst (asm) upgrade_loop.simps)
     (auto split: if_splits option.splits sum.splits prod.splits)

lemma loop_index:
  "upgrade_loop E ups v d = (res, d', tr) \<Longrightarrow> e \<in> set tr \<Longrightarrow> v \<le> ev_index e"
proof (induction E ups v d arbitrary: res d' tr rule: upgrade_loop.induct)
  case (1 E ups version d)
  from "1.prems"(1) show ?case
  proof (cases rule: loop_cases)
    case (committed tx1 tx2 tr')
    show ?thesis
    proof (cases "e \<in> set tr'")
      case True
      from "1.IH" [OF committed(2) committed(3) _ committed(4) committed(5) committed(6) committed(7) True]
        committed(1)
      show ?thesis by simp
    next
      case False
      with committed "1.prems"(2) show ?thesis by auto
    qed
  qed (use "1.prems"(2) in auto)
qed

lemma loop_head:
  "upgrade_loop E ups v d = (res, d', tr) \<Longrightarrow> tr \<noteq> [] \<Longrightarrow> \<exists>r. hd tr = TxBegin v r"
  by (erule loop_cases) auto

lemma loop_finished: "\<not> v < int (length ups) \<Longrightarrow> upgrade_loop E ups v d = (Done, d, [])"
  by (subst upgrade_loop.simps) simp

lemma loop_commits:
  "upgrade_loop E ups v d = (res, d', tr) \<Longrightarrow>
     (\<forall>i. (\<exists>s. TxCommit i (Inr s) \<in> set tr) \<longleftrightarrow> v \<le> i \<and> i < v + int (length (filter is_commit tr)))
   \<and> d' = last_committed d tr
   \<and> (filter is_commit tr \<noteq> [] \<longrightarrow> scan_version d' = Some (v + int (length (filter is_commit tr))))
   \<and> (filter is_commit tr = [] \<longrightarrow> d' = d)
   \<and> (res = Done \<longrightarrow> int (length ups) \<le> v + int (length (filter is_commit tr)))"
proof (induction "nat (int (length ups) - v)" arbitrary: v d tr rule: less_induct)
  case less
  from less.prems show ?case
  proof (cases rule: loop_cases)
    case (committed tx1 tx2 tr')
    have "nat (int (length ups) - (v + 1)) < nat (int (length ups) - v)"
      using committed(2) by simp
    from less.hyps [OF this committed(7)]
    have ih1: "\<forall>i. (\<exists>s. TxCommit i (Inr s) \<in> set tr') \<longleftrightarrow>
                 v + 1 \<le> i \<and> i < v + 1 + int (length (filter is_commit tr'))"
      and ih2: "d' = last_committed tx2 tr'"
      and ih3: "filter is_commit tr' \<noteq> [] \<longrightarrow>
                 scan_version d' = Some (v + 1 + int (length (filter is_commit tr')))"
      and ih4: "filter is_commit tr' = [] \<longrightarrow> d' = tx2"
      and ih5: "res = Done \<longrightarrow> int (length ups) \<le> v + 1 + int (length (filter is_commit tr'))"
      by blast+
    have len: "int (length (filter is_commit tr)) = 1 + int (length (filter is_commit tr'))"
      using committed(8) by simp
    have a: "\<forall>i. (\<exists>s. TxCommit i (Inr s) \<in> set tr) \<longleftrightarrow>
                 v \<le> i \<and> i < v + int (length (filter is_commit tr))"
    proof
      fix i
      have "(\<exists>s. TxCommit i (Inr s) \<in> set tr) \<longleftrightarrow> i = v \<or> (\<exists>s. TxCommit i (Inr s) \<in> set tr')"
        using committed(8) by auto
      also have "\<dots> \<longleftrightarrow> i = v \<or> (v + 1 \<le> i \<and> i < v + 1 + int (length (filter is_commit tr')))"
        using ih1 by simp
      also have "\<dots> \<longleftrightarrow> v \<le> i \<and> i < v + int (length (filter is_commit tr))"
        using len by auto
      finally show "(\<exists>s. TxCommit i (Inr s) \<in> set tr) \<longleftrightarrow>
                 v \<le> i \<and> i < v + int (length (filter is_commit tr))" .
    qed
    have b: "d' = last_committed d tr"
      using ih2 committed(8) by simp
    have c: "scan_version d' = Some (v + int (length (filter is_commit tr)))"
    proof (cases "filter is_commit tr' = []")
      case True
      with ih4 have "d' = tx2" by simp
      with setVersion_scan [OF committed(5)] True committed(8) show ?thesis by simp
    next
      case False
      with ih3 len show ?thesis by (simp add: algebra_simps)
    qed
    have e: "res = Done \<longrightarrow> int (length ups) \<le> v + int (length (filter is_commit tr))"
      using ih5 len by (simp add: algebra_simps)
    from a b c e committed(8) show ?thesis by simp
  qed auto
qed

lemma loop_block:
  "upgrade_loop E ups v d = (res, d', tr) \<Longrightarrow> TxCommit i (Inr s) \<in> set tr \<Longrightarrow>
     \<exists>pre post. tr = pre @ [TxBegin i None, TxApply i None, TxSetVersion (i + 1) None,
                            TxCommit i (Inr s)] @ post"
proof (induction "nat (int (length ups) - v)" arbitrary: v d tr rule: less_induct)
  case less
  from less.prems(1) show ?case
  proof (cases rule: loop_cases)
    case (committed tx1 tx2 tr')
    have m: "nat (int (length ups) - (v + 1)) < nat (int (length ups) - v)"
      using committed(2) by simp
    show ?thesis
    proof (cases "TxCommit i (Inr s) \<in> set tr'")
      case True
      from less.hyps [OF m committed(7) True] obtain pre post where
        "tr' = pre @ [TxBegin i None, TxApply i None, TxSetVersion (i + 1) None,
                            TxCommit i (Inr s)] @ post" by blast
      with committed(8) have "tr = ([TxBegin v None, TxApply v None, TxSetVersion (v + 1) None,
          TxCommit v (Inr tx2)] @ pre) @ [TxBegin i None, TxApply i None, TxSetVersion (i + 1) None,
                            TxCommit i (Inr s)] @ post" by simp
      then show ?thesis by blast
    next
      case False
      with less.prems(2) committed(8) have "i = v" "s = tx2" by auto
      with committed(8) have "tr = [] @ [TxBegin i None, TxApply i None, TxSetVersion (i + 1) None,
                            TxCommit i (Inr s)] @ tr'" by simp
      then show ?thesis by blast
    qed
  qed (use less.prems(2) in auto)
qed

lemma loop_failed_step:
  "upgrade_loop E ups v d = (res, d', tr) \<Longrightarrow> TxApply i (Some err) \<in> set tr \<Longrightarrow>
     res = Error err \<and> (\<exists>pre. tr = pre @ [TxBegin i None, TxApply i (Some err), TxRollback i])"
proof (induction "nat (int (length ups) - v)" arbitrary: v d tr rule: less_induct)
  case less
  from less.prems(1) show ?case
  proof (cases rule: loop_cases)
    case (committed tx1 tx2 tr')
    have m: "nat (int (length ups) - (v + 1)) < nat (int (length ups) - v)"
      using committed(2) by simp
    from less.prems(2) committed(8) have "TxApply i (Some err) \<in> set tr'" by auto
    from less.hyps [OF m committed(7) this] obtain pre where
      "res = Error err" "tr' = pre @ [TxBegin i None, TxApply i (Some err), TxRollback i]"
      by blast
    with committed(8) have "res = Error err" "tr = ([TxBegin v None, TxApply v None,
       TxSetVersion (v + 1) None, TxCommit v (Inr tx2)] @ pre)
        @ [TxBegin i None, TxApply i (Some err), TxRollback i]" by simp_all
    then show ?thesis by blast
  qed (use less.prems(2) in auto)
qed

lemma loop_applied:
  "upgrade_loop E ups v d = (res, d', tr) \<Longrightarrow> TxCommit i (Inr s) \<in> set tr \<Longrightarrow>
     \<exists>pre post tx1. tr = pre @ [TxBegin i None, TxApply i None, TxSetVersion (i + 1) None,
                            TxCommit i (Inr s)] @ post
       \<and> 0 \<le> i \<and> i < int (length ups)
       \<and> (ups ! nat i) E (last_committed d pre) = Inr tx1
       \<and> setVersion E tx1 (i + 1) = Inr s"
proof (induction "nat (int (length ups) - v)" arbitrary: v d tr rule: less_induct)
  case less
  from less.prems(1) show ?case
  proof (cases rule: loop_cases)
    case (committed tx1 tx2 tr')
    have m: "nat (int (length ups) - (v + 1)) < nat (int (length ups) - v)"
      using committed(2) by simp
    let ?blk = "[TxBegin v None, TxApply v None, TxSetVersion (v + 1) None, TxCommit v (Inr tx2)]"
    show ?thesis
    proof (cases "TxCommit i (Inr s) \<in> set tr'")
      case True
      from less.hyps [OF m committed(7) True] obtain pre post t1 where
        t: "tr' = pre @ [TxBegin i None, TxApply i None, TxSetVersion (i + 1) None,
                            TxCommit i (Inr s)] @ post"
        and r: "0 \<le> i" "i < int (length ups)"
          "(ups ! nat i) E (last_committed tx2 pre) = Inr t1" "setVersion E t1 (i + 1) = Inr s"
        by blast
      from t committed(8) have "tr = (?blk @ pre) @ [TxBegin i None, TxApply i None,
          TxSetVersion (i + 1) None, TxCommit i (Inr s)] @ post" by simp
      moreover have "last_committed d (?blk @ pre) = last_committed tx2 pre" by simp
      ultimately show ?thesis using r by metis
    next
      case False
      with less.prems(2) committed(8) have "i = v" "s = tx2" by auto
      with committed have "tr = [] @ [TxBegin i None, TxApply i None, TxSetVersion (i + 1) None,
                            TxCommit i (Inr s)] @ tr'"
        "0 \<le> i" "i < int (length ups)" "(ups ! nat i) E (last_committed d []) = Inr tx1"
        "setVersion E tx1 (i + 1) = Inr s" by simp_all
      then show ?thesis by blast
    qed
  qed (use less.prems(2) in auto)
qed

lemma loop_failure:
  "upgrade_loop E ups v d = (res, d', tr) \<Longrightarrow> e \<in> set tr \<Longrightarrow> ev_error e = Some err \<Longrightarrow>
     res = Error err
     \<and> (\<forall>s. TxCommit (ev_index e) (Inr s) \<notin> set tr)
     \<and> (\<exists>pre. tr = pre @ [e] \<or> tr = pre @ [e, TxRollback (ev_index e)])"
proof (induction "nat (int (length ups) - v)" arbitrary: v d tr rule: less_induct)
  case less
  from less.prems(1) show ?case
  proof (cases rule: loop_cases)
    case (committed tx1 tx2 tr')
    have m: "nat (int (length ups) - (v + 1)) < nat (int (length ups) - v)"
      using committed(2) by simp
    let ?blk = "[TxBegin v None, TxApply v None, TxSetVersion (v + 1) None, TxCommit v (Inr tx2)]"
    from less.prems(2,3) committed(8) have in': "e \<in> set tr'" by auto
    from less.hyps [OF m committed(7) in' less.prems(3)] obtain pre where
      r: "res = Error err" and nc: "\<forall>s. TxCommit (ev_index e) (Inr s) \<notin> set tr'"
      and t: "tr' = pre @ [e] \<or> tr' = pre @ [e, TxRollback (ev_index e)]" by blast
    from loop_index [OF committed(7) in'] have "ev_index e \<noteq> v" by simp
    with nc committed(8) have nc': "\<forall>s. TxCommit (ev_index e) (Inr s) \<notin> set tr" by simp
    from t committed(8) have "tr = (?blk @ pre) @ [e] \<or> tr = (?blk @ pre) @ [e, TxRollback (ev_index e)]"
      by auto
    then have "\<exists>pre. tr = pre @ [e] \<or> tr = pre @ [e, TxRollback (ev_index e)]" by blast
    with r nc' show ?thesis by blast
  next
    case (begin_failed err')
    with less.prems(2,3) have "e = TxBegin v (Some err)" "err' = err" by auto
    with begin_failed have "res = Error err" "tr = [] @ [e]" by simp_all
    moreover from begin_failed have "\<forall>s. TxCommit (ev_index e) (Inr s) \<notin> set tr" by simp
    ultimately show ?thesis by blast
  next
    case (step_failed err')
    with less.prems(2,3) have e: "e = TxApply v (Some err)" "err' = err" by auto
    with step_failed have "res = Error err" "tr = [TxBegin v None] @ [e, TxRollback (ev_index e)]" by simp_all
    moreover from step_failed have "\<forall>s. TxCommit (ev_index e) (Inr s) \<notin> set tr" by simp
    ultimately show ?thesis by blast
  next
    case (set_failed tx1 err')
    with less.prems(2,3) have e: "e = TxSetVersion (v + 1) (Some err)" "err' = err" by auto
    with set_failed have "res = Error err" "tr = [TxBegin v None, TxApply v None] @ [e]" by simp_all
    moreover from set_failed have "\<forall>s. TxCommit (ev_index e) (Inr s) \<notin> set tr" by simp
    ultimately show ?thesis by blast
  next
    case (commit_failed tx1 tx2 err')
    with less.prems(2,3) have e: "e = TxCommit v (Inl err)" "err' = err" by auto
    with commit_failed have "res = Error err"
      "tr = [TxBegin v None, TxApply v None, TxSetVersion (v + 1) None] @ [e]" by simp_all
    moreover from commit_failed have "\<forall>s. TxCommit (ev_index e) (Inr s) \<notin> set tr" by simp
    ultimately show ?thesis by blast
  qed (use less.prems(2,3) in auto)
qed

lemma loop_error:
  "upgrade_loop E ups v d = (res, d', tr) \<Longrightarrow> res = Error err \<Longrightarrow>
     \<exists>e\<in>set tr. ev_error e = Some err"
proof (induction "nat (int (length ups) - v)" arbitrary: v d tr rule: less_induct)
  case less
  from less.prems(1) show ?case
  proof (cases rule: loop_cases)
    case (committed tx1 tx2 tr')
    have m: "nat (int (length ups) - (v + 1)) < nat (int (length ups) - v)"
      using committed(2) by simp
    from less.hyps [OF m committed(7) less.prems(2)] committed(8) show ?thesis by auto
  qed (use less.prems(2) in auto)
qed

lemma Upgrade_cases:
  assumes "Upgrade E ups d = (res, d', tr)"
  obtains (version_failed) err where "create_version_fault E = Some err"
      "res = Error err" "d' = d" "tr = []" "getVersion E d = (Inl err, d)"
  | (loop) v d0 where "getVersion E d = (Inr v, d0)" "create_version_fault E = None"
      "upgrade_loop E ups v d0 = (res, d', tr)"
  using assms
  by (auto simp: Upgrade_def getVersion_def Let_def split: prod.splits sum.splits option.splits)

subsection \<open>The sample runs\<close>

lemmas schema_defs = whatsmeow_device_def whatsmeow_identity_keys_def whatsmeow_pre_keys_def
  whatsmeow_sessions_def whatsmeow_sender_keys_def whatsmeow_app_state_sync_keys_def
  whatsmeow_app_state_version_def whatsmeow_app_state_mutation_macs_def
  whatsmeow_contacts_def whatsmeow_chat_settings_def whatsmeow_version_def

lemmas eval_defs = Upgrade_def Upgrades_def getVersion_def setVersion_def upgrade_v1_def
  tx_Exec_create_def create_table_def create_table_if_not_exists_def insert_row_def
  complete_row_def row_ok_def column_ok_def has_type_def check_holds_def col_def
  empty_db_def no_faults_def scan_version_def rows_of_def Let_def
  upgrade_loop.simps delete_where_no_children schema_defs

lemma first_run:
  "Upgrade no_faults Upgrades empty_db =
     (Done, migrated_db,
      [TxBegin 0 None, TxApply 0 None, TxSetVersion 1 None, TxCommit 0 (Inr migrated_db)])"
  unfolding migrated_db_def by (simp add: eval_defs)

lemma migrated_names: "names migrated_db = schema_names"
  unfolding migrated_db_def schema_names_def by (simp add: eval_defs)

lemma migrated_tables:
  "map (table_of migrated_db) schema_names =
     [Table whatsmeow_version [[(''version'', VInt 1)]],
      Table whatsmeow_device [], Table whatsmeow_identity_keys [], Table whatsmeow_pre_keys [],
      Table whatsmeow_sessions [], Table whatsmeow_sender_keys [],
      Table whatsmeow_app_state_sync_keys [], Table whatsmeow_app_state_version [],
      Table whatsmeow_app_state_mutation_macs [], Table whatsmeow_contacts [],
      Table whatsmeow_chat_settings []]"
  unfolding migrated_db_def schema_names_def by (simp add: eval_defs)

lemma migrated_version: "scan_version migrated_db = Some 1"
  using migrated_tables
  by (simp add: scan_version_def rows_of_def migrated_names schema_names_def col_def)

lemma migrated_installed: "installed migrated_db"
  using migrated_tables
  by (simp add: installed_def all_tables_def migrated_names schema_names_def)
     (simp add: schema_defs)

lemma two_steps_run:
  "Upgrade no_faults two_steps empty_db =
     (Error ''step failed'', migrated_db,
      [TxBegin 0 None, TxApply 0 None, TxSetVersion 1 None, TxCommit 0 (Inr migrated_db),
       TxBegin 1 None, TxApply 1 (Some ''step failed''), TxRollback 1])"
  unfolding migrated_db_def two_steps_def by (simp add: eval_defs failing_step_def)

lemma populated_installed: "installed populated_db"
  by code_simp

lemma populated_consistent: "consistent populated_db"
  by code_simp

lemma migrated_device_table:
  "''whatsmeow_device'' \<in> set (names migrated_db)"
  "table_of migrated_db ''whatsmeow_device'' = Table whatsmeow_device []"
  using migrated_tables by (simp_all add: migrated_names schema_names_def)

lemma short_adv_row:
  "list_all (\<lambda>c. c \<in> set (map col_name (td_columns whatsmeow_device)))
     (map fst (device_row ''carol'' (replicate 32 1) [1, 2, 3]))"
  "row_ok whatsmeow_device
     (complete_row whatsmeow_device (device_row ''carol'' (replicate 32 1) [1, 2, 3]))"
  "td_primary_key whatsmeow_device = [''jid'']" "td_foreign_keys whatsmeow_device = []"
  by code_simp+

text \<open>When the second statement of \<^verbatim>\<open>Upgrades[0]\<close> fails on the connection, the step
  goes on, \<^verbatim>\<open>Upgrade\<close> returns nil with the counter at 1, and the table of trusted
  identities does not exist.\<close>
lemma identity_keys_error_dropped:
  "fst (Upgrade (no_faults\<lparr>exec_fault := (\<lambda>i. if i = 1 then Some ''connection lost'' else None)\<rparr>)
          Upgrades empty_db) = Done
   \<and> ''whatsmeow_identity_keys'' \<notin> set (names (fst (snd
         (Upgrade (no_faults\<lparr>exec_fault := (\<lambda>i. if i = 1 then Some ''connection lost'' else None)\<rparr>)
          Upgrades empty_db))))
   \<and> scan_version (fst (snd
         (Upgrade (no_faults\<lparr>exec_fault := (\<lambda>i. if i = 1 then Some ''connection lost'' else None)\<rparr>)
          Upgrades empty_db))) = Some 1"
  by (simp add: eval_defs)

subsection \<open>Transactions of the migrator\<close>

text \<open>Claim C4. In every run of \<^verbatim>\<open>Upgrade\<close>: a step that was committed was applied
  inside one transaction: its \<^verbatim>\<open>Begin\<close>, the step, \<^verbatim>\<open>setVersion\<close> to index + 1 and the
  \<^verbatim>\<open>Commit\<close> follow each other in the log, and the state that was committed is what the
  step made of the database committed before it, with the counter index + 1 written into
  that same state. When a step fails, \<^verbatim>\<open>Rollback\<close> follows at once, nothing follows it
  and its error is returned. Whatever call fails (\<^verbatim>\<open>Begin\<close>, the step, \<^verbatim>\<open>setVersion\<close> or
  \<^verbatim>\<open>Commit\<close>), its error is returned, the transaction of that iteration is never
  committed and no call follows but the \<^verbatim>\<open>Rollback\<close> of a failed step; and an error that
  is returned is the error of such a call, or of creating the version table. The database
  that is left is the one of the last successful commit (the initial one when there is
  none), so that the committed steps remain applied, and once a commit has happened the
  stored counter is the index of the last committed step plus one. A later run whose
  version query is answered applies no step that was committed and, if it begins a
  transaction at all, begins with the step at the stored counter.\<close>
theorem upgrade_steps_atomic_and_resumable:
  assumes "Upgrade E ups d = (res, d', tr)"
  shows "(\<forall>i s. TxCommit i (Inr s) \<in> set tr \<longrightarrow>
            (\<exists>pre post tx1.
                tr = pre @ [TxBegin i None, TxApply i None, TxSetVersion (i + 1) None,
                            TxCommit i (Inr s)] @ post
              \<and> 0 \<le> i \<and> i < int (length ups)
              \<and> (ups ! nat i) E (last_committed (snd (getVersion E d)) pre) = Inr tx1
              \<and> setVersion E tx1 (i + 1) = Inr s))
       \<and> (\<forall>i err. TxApply i (Some err) \<in> set tr \<longrightarrow>
            res = Error err
            \<and> (\<exists>pre. tr = pre @ [TxBegin i None, TxApply i (Some err), TxRollback i]))
       \<and> (\<forall>e err. e \<in> set tr \<and> ev_error e = Some err \<longrightarrow>
            res = Error err
            \<and> (\<forall>s. TxCommit (ev_index e) (Inr s) \<notin> set tr)
            \<and> (\<exists>pre. tr = pre @ [e] \<or> tr = pre @ [e, TxRollback (ev_index e)]))
       \<and> (\<forall>err. res = Error err \<longrightarrow>
            (create_version_fault E = Some err \<and> tr = [])
            \<or> (\<exists>e \<in> set tr. ev_error e = Some err))
       \<and> d' = last_committed (snd (getVersion E d)) tr
       \<and> ((\<exists>i s. TxCommit i (Inr s) \<in> set tr) \<longrightarrow>
            (\<exists>k. scan_version d' = Some k \<and> (\<exists>s. TxCommit (k - 1) (Inr s) \<in> set tr)
                \<and> (\<forall>i s. TxCommit i (Inr s) \<in> set tr \<longrightarrow> i < k)))
       \<and> (\<forall>E2 res2 d2 tr2.
            query_version_fault E2 = None \<and> Upgrade E2 ups d' = (res2, d2, tr2) \<longrightarrow>
              (\<forall>i s. TxCommit i (Inr s) \<in> set tr \<longrightarrow> (\<forall>r. TxApply i r \<notin> set tr2))
            \<and> ((\<exists>i s. TxCommit i (Inr s) \<in> set tr) \<and> tr2 \<noteq> [] \<longrightarrow>
                 (\<exists>k r. scan_version d' = Some k \<and> hd tr2 = TxBegin k r)))"
  using assms
proof (cases rule: Upgrade_cases)
  case (version_failed err)
  then show ?thesis by simp
next
  case (loop v d0)
  let ?cc = "int (length (filter is_commit tr))"
  note lc = loop_commits [OF loop(3)]
  have d0: "snd (getVersion E d) = d0"
    using loop(1) by simp
  have p1: "\<forall>i s. TxCommit i (Inr s) \<in> set tr \<longrightarrow>
            (\<exists>pre post tx1.
                tr = pre @ [TxBegin i None, TxApply i None, TxSetVersion (i + 1) None,
                            TxCommit i (Inr s)] @ post
              \<and> 0 \<le> i \<and> i < int (length ups)
              \<and> (ups ! nat i) E (last_committed (snd (getVersion E d)) pre) = Inr tx1
              \<and> setVersion E tx1 (i + 1) = Inr s)"
    unfolding d0 using loop_applied [OF loop(3)] by blast
  have p2: "\<forall>i err. TxApply i (Some err) \<in> set tr \<longrightarrow>
            res = Error err
            \<and> (\<exists>pre. tr = pre @ [TxBegin i None, TxApply i (Some err), TxRollback i])"
    using loop_failed_step [OF loop(3)] by blast
  have p2a: "\<forall>e err. e \<in> set tr \<and> ev_error e = Some err \<longrightarrow>
            res = Error err
            \<and> (\<forall>s. TxCommit (ev_index e) (Inr s) \<notin> set tr)
            \<and> (\<exists>pre. tr = pre @ [e] \<or> tr = pre @ [e, TxRollback (ev_index e)])"
    using loop_failure [OF loop(3)] by blast
  have p2b: "\<forall>err. res = Error err \<longrightarrow>
            (create_version_fault E = Some err \<and> tr = [])
            \<or> (\<exists>e \<in> set tr. ev_error e = Some err)"
    using loop_error [OF loop(3)] by blast
  have p3: "d' = last_committed (snd (getVersion E d)) tr"
    using lc loop(1) by simp
  have some: "filter is_commit tr \<noteq> []" if "TxCommit i (Inr s) \<in> set tr" for i s
  proof -
    have "is_commit (TxCommit i (Inr s))" by simp
    with that show ?thesis unfolding filter_empty_conv by blast
  qed
  have p4: "\<exists>k. scan_version d' = Some k \<and> (\<exists>s. TxCommit (k - 1) (Inr s) \<in> set tr)
                \<and> (\<forall>i s. TxCommit i (Inr s) \<in> set tr \<longrightarrow> i < k)"
    if "\<exists>i s. TxCommit i (Inr s) \<in> set tr"
  proof -
    from that some have ne: "filter is_commit tr \<noteq> []" by blast
    then have pos: "0 < ?cc" by simp
    from lc ne have sv: "scan_version d' = Some (v + ?cc)" by blast
    from pos have "v \<le> v + ?cc - 1 \<and> v + ?cc - 1 < v + ?cc" by simp
    with lc have "\<exists>s. TxCommit (v + ?cc - 1) (Inr s) \<in> set tr" by blast
    moreover from lc have "\<forall>i s. TxCommit i (Inr s) \<in> set tr \<longrightarrow> i < v + ?cc" by blast
    ultimately show ?thesis using sv by blast
  qed
  have p5: "(\<forall>i s. TxCommit i (Inr s) \<in> set tr \<longrightarrow> (\<forall>r. TxApply i r \<notin> set tr2))
            \<and> ((\<exists>i s. TxCommit i (Inr s) \<in> set tr) \<and> tr2 \<noteq> [] \<longrightarrow>
                 (\<exists>k r. scan_version d' = Some k \<and> hd tr2 = TxBegin k r))"
    if q: "query_version_fault E2 = None" and u: "Upgrade E2 ups d' = (res2, d2, tr2)"
    for E2 res2 d2 tr2
  proof (cases "\<exists>i s. TxCommit i (Inr s) \<in> set tr")
    case False
    then show ?thesis by blast
  next
    case True
    from p4 [OF True] obtain k where k: "scan_version d' = Some k"
      and kmax: "\<forall>i s. TxCommit i (Inr s) \<in> set tr \<longrightarrow> i < k" by blast
    from u show ?thesis
    proof (cases rule: Upgrade_cases)
      case (version_failed err)
      then show ?thesis by simp
    next
      case (loop v2 d02)
      from getVersion_reads [OF k loop(2) q] loop(1) have "v2 = k" "d02 = d'" by simp_all
      with loop(3) have l2: "upgrade_loop E2 ups k d' = (res2, d2, tr2)" by simp
      have "\<forall>i s. TxCommit i (Inr s) \<in> set tr \<longrightarrow> (\<forall>r. TxApply i r \<notin> set tr2)"
      proof (intro allI impI notI)
        fix i s r
        assume c: "TxCommit i (Inr s) \<in> set tr" and a: "TxApply i r \<in> set tr2"
        from loop_index [OF l2 a] have "k \<le> i" by simp
        with kmax c show False by fastforce
      qed
      moreover have "tr2 \<noteq> [] \<longrightarrow> (\<exists>k r. scan_version d' = Some k \<and> hd tr2 = TxBegin k r)"
        using loop_head [OF l2] k by blast
      ultimately show ?thesis by blast
    qed
  qed
  have p45: "((\<exists>i s. TxCommit i (Inr s) \<in> set tr) \<longrightarrow>
            (\<exists>k. scan_version d' = Some k \<and> (\<exists>s. TxCommit (k - 1) (Inr s) \<in> set tr)
                \<and> (\<forall>i s. TxCommit i (Inr s) \<in> set tr \<longrightarrow> i < k)))
       \<and> (\<forall>E2 res2 d2 tr2.
            query_version_fault E2 = None \<and> Upgrade E2 ups d' = (res2, d2, tr2) \<longrightarrow>
              (\<forall>i s. TxCommit i (Inr s) \<in> set tr \<longrightarrow> (\<forall>r. TxApply i r \<notin> set tr2))
            \<and> ((\<exists>i s. TxCommit i (Inr s) \<in> set tr) \<and> tr2 \<noteq> [] \<longrightarrow>
                 (\<exists>k r. scan_version d' = Some k \<and> hd tr2 = TxBegin k r)))"
    using p4 p5 by blast
  show ?thesis
    by (rule conjI [OF p1 conjI [OF p2 conjI [OF p2a conjI [OF p2b conjI [OF p3 p45]]]]])
qed

theorem upgrade_steps_atomic_and_resumable_witness:
  "fst (Upgrade no_faults two_steps empty_db) = Error ''step failed''
   \<and> installed (fst (snd (Upgrade no_faults two_steps empty_db)))
   \<and> scan_version (fst (snd (Upgrade no_faults two_steps empty_db))) = Some 1
   \<and> (\<exists>tx1. upgrade_v1 no_faults (snd (getVersion no_faults empty_db)) = Inr tx1
          \<and> setVersion no_faults tx1 1 = Inr (fst (snd (Upgrade no_faults two_steps empty_db))))
   \<and> (\<forall>s. TxCommit 1 (Inr s) \<notin> set (snd (snd (Upgrade no_faults two_steps empty_db))))
   \<and> (\<forall>r. TxApply 0 r \<notin> set (snd (snd (Upgrade no_faults two_steps
                 (fst (snd (Upgrade no_faults two_steps empty_db)))))))
   \<and> hd (snd (snd (Upgrade no_faults two_steps
                 (fst (snd (Upgrade no_faults two_steps empty_db)))))) = TxBegin 1 None"
proof -
  let ?tr = "[TxBegin 0 None, TxApply 0 None, TxSetVersion 1 None,
       TxCommit 0 (Inr migrated_db), TxBegin 1 None, TxApply 1 (Some ''step failed''), TxRollback 1]"
  let ?tr2 = "[TxBegin 1 None, TxApply 1 (Some ''step failed''), TxRollback 1]"
  let ?d0 = "snd (getVersion no_faults empty_db)"
  note th = upgrade_steps_atomic_and_resumable [OF two_steps_run]
  note th1 = th [THEN conjunct1, rule_format]
  note th3 = th [THEN conjunct2, THEN conjunct2, THEN conjunct1, rule_format]
  note th7 = th [THEN conjunct2, THEN conjunct2, THEN conjunct2, THEN conjunct2,
                 THEN conjunct2, THEN conjunct2, rule_format]
  have q: "query_version_fault no_faults = None"
    by (simp add: no_faults_def)
  have c: "TxCommit 0 (Inr migrated_db) \<in> set ?tr"
    by simp
  have f: "TxApply 1 (Some ''step failed'') \<in> set ?tr
           \<and> ev_error (TxApply 1 (Some ''step failed'')) = Some ''step failed''"
    by simp
  have second: "Upgrade no_faults two_steps migrated_db = (Error ''step failed'', migrated_db, ?tr2)"
    using getVersion_reads [OF migrated_version, of no_faults]
    by (simp add: Upgrade_def no_faults_def upgrade_loop.simps two_steps_def failing_step_def)
  from th1 [OF c] obtain pre post tx1 where
    t: "?tr = pre @ [TxBegin 0 None, TxApply 0 None, TxSetVersion (0 + 1) None,
                     TxCommit 0 (Inr migrated_db)] @ post"
    and a: "(two_steps ! nat 0) no_faults (last_committed ?d0 pre) = Inr tx1"
      "setVersion no_faults tx1 (0 + 1) = Inr migrated_db"
    by blast
  have "pre = []"
  proof (rule ccontr)
    assume "pre \<noteq> []"
    then obtain x pre' where p: "pre = x # pre'" by (cases pre) auto
    from t have "tl ?tr = tl (pre @ [TxBegin 0 None, TxApply 0 None, TxSetVersion (0 + 1) None,
                     TxCommit 0 (Inr migrated_db)] @ post)" by (rule arg_cong)
    with p have "tl ?tr = pre' @ [TxBegin 0 None, TxApply 0 None, TxSetVersion (0 + 1) None,
                     TxCommit 0 (Inr migrated_db)] @ post" by simp
    then have "set (tl ?tr) = set (pre' @ [TxBegin 0 None, TxApply 0 None, TxSetVersion (0 + 1) None,
                     TxCommit 0 (Inr migrated_db)] @ post)" by (rule arg_cong)
    moreover have "TxBegin 0 None \<in> set (pre' @ [TxBegin 0 None, TxApply 0 None,
                     TxSetVersion (0 + 1) None, TxCommit 0 (Inr migrated_db)] @ post)" by simp
    ultimately have "TxBegin 0 None \<in> set (tl ?tr)" by blast
    then show False by simp
  qed
  with a have applied: "\<exists>tx1. upgrade_v1 no_faults ?d0 = Inr tx1
          \<and> setVersion no_faults tx1 1 = Inr migrated_db"
    by (simp add: two_steps_def)
  from th3 [OF f] have "\<forall>s. TxCommit (ev_index (TxApply 1 (Some ''step failed''))) (Inr s) \<notin> set ?tr"
    by blast
  then have uncommitted: "\<forall>s. TxCommit 1 (Inr s) \<notin> set ?tr"
    by simp
  from th7 [of no_faults "Error ''step failed''" migrated_db ?tr2] q second
  have "\<forall>i s. TxCommit i (Inr s) \<in> set ?tr \<longrightarrow> (\<forall>r. TxApply i r \<notin> set ?tr2)"
    by blast
  with c have resumed: "\<forall>r. TxApply 0 r \<notin> set ?tr2"
    by blast
  have r1: "fst (Upgrade no_faults two_steps empty_db) = Error ''step failed''"
    and r2: "fst (snd (Upgrade no_faults two_steps empty_db)) = migrated_db"
    and r3: "snd (snd (Upgrade no_faults two_steps empty_db)) = ?tr"
    by (simp_all add: two_steps_run)
  have s3: "snd (snd (Upgrade no_faults two_steps migrated_db)) = ?tr2"
    by (simp add: second)
  show ?thesis
    unfolding r1 r2 r3 s3
    using applied uncommitted resumed migrated_version migrated_installed
    by (intro conjI) simp_all
qed

subsection \<open>Running the migrator twice\<close>

text \<open>Claim C5. If a run of \<^verbatim>\<open>Upgrade\<close> returns nil, the next run with the same list,
  when its version query is answered, begins no transaction, applies no step and leaves
  the database, and with it the stored counter, as it is; it returns nil unless creating
  the version table fails. (For an empty list the version query of the first run must
  have been answered too.)\<close>
theorem upgrade_twice_applies_nothing:
  assumes "Upgrade E1 ups d = (Done, d1, tr1)"
      and "query_version_fault E2 = None"
      and "ups \<noteq> [] \<or> query_version_fault E1 = None"
  shows "Upgrade E2 ups d1 =
           ((case create_version_fault E2 of None \<Rightarrow> Done | Some err \<Rightarrow> Error err), d1, [])"
  using assms(1)
proof (cases rule: Upgrade_cases)
  case (version_failed err)
  then show ?thesis by simp
next
  case (loop v d0)
  from getVersion_ok [OF loop(1)]
  have ex: "''whatsmeow_version'' \<in> set (names d0)"
    and gv: "v = (case query_version_fault E1 of Some _ \<Rightarrow> 0
               | None \<Rightarrow> (case scan_version d0 of None \<Rightarrow> 0 | Some x \<Rightarrow> x))"
    by blast+
  note lc = loop_commits [OF loop(3)]
  show ?thesis
  proof (cases "create_version_fault E2")
    case (Some err)
    then show ?thesis by (simp add: Upgrade_def getVersion_def)
  next
    case None
    show ?thesis
    proof (cases "filter is_commit tr1 = []")
      case False
      with lc have sv: "scan_version d1 = Some (v + int (length (filter is_commit tr1)))"
        and ge: "int (length ups) \<le> v + int (length (filter is_commit tr1))"
        by blast+
      from getVersion_reads [OF sv None assms(2)] ge None show ?thesis
        by (simp add: Upgrade_def loop_finished)
    next
      case True
      from lc True have d1: "d1 = d0" by blast
      from lc True have ge: "int (length ups) \<le> v" by simp
      have v: "v = (case scan_version d0 of None \<Rightarrow> 0 | Some x \<Rightarrow> x)"
      proof (cases "query_version_fault E1")
        case None
        with gv show ?thesis by simp
      next
        case (Some e)
        with gv have "v = 0" by simp
        with ge have "ups = []" by simp
        with assms(3) Some show ?thesis by simp
      qed
      from getVersion_again [OF ex None] assms(2) v
      have "getVersion E2 d0 = (Inr v, d0)" by simp
      with ge d1 None show ?thesis
        by (simp add: Upgrade_def loop_finished)
    qed
  qed
qed

theorem upgrade_twice_applies_nothing_witness:
  "Upgrade no_faults Upgrades (fst (snd (Upgrade no_faults Upgrades empty_db))) =
     (Done, fst (snd (Upgrade no_faults Upgrades empty_db)), [])"
proof -
  have q: "query_version_fault no_faults = None" "create_version_fault no_faults = None"
    by (simp_all add: no_faults_def)
  have n: "Upgrades \<noteq> [] \<or> query_version_fault no_faults = None"
    by (simp add: Upgrades_def)
  show ?thesis
    using upgrade_twice_applies_nothing [OF first_run q(1) n] q(2)
    by (simp add: migrated_db_def)
qed

subsection \<open>The version read by \<^verbatim>\<open>getVersion\<close>\<close>

text \<open>Claim C10. \<^verbatim>\<open>getVersion\<close> returns an error exactly when creating the version table
  fails. When that succeeds and the query fails or finds no integer in a first row, it
  returns version 0 without error, and \<^verbatim>\<open>Upgrade\<close> then runs its loop from index 0: the
  first transaction, if any, is that of step 0, step 0 is applied whenever the list is
  not empty and \<^verbatim>\<open>Begin\<close> succeeds, and a run that returns nil has applied every step of
  the list.\<close>
theorem getVersion_drops_scan_error:
  "((\<exists>err d'. getVersion E d = (Inl err, d')) \<longleftrightarrow> create_version_fault E \<noteq> None)
   \<and> (create_version_fault E = None
        \<and> (query_version_fault E \<noteq> None
            \<or> scan_version (create_table_if_not_exists whatsmeow_version d) = None) \<longrightarrow>
        getVersion E d = (Inr 0, create_table_if_not_exists whatsmeow_version d)
      \<and> Upgrade E ups d = upgrade_loop E ups 0 (create_table_if_not_exists whatsmeow_version d)
      \<and> (\<forall>res d' tr. Upgrade E ups d = (res, d', tr) \<longrightarrow>
            (tr \<noteq> [] \<longrightarrow> (\<exists>r. hd tr = TxBegin 0 r))
          \<and> (ups \<noteq> [] \<and> begin_fault E 0 = None \<longrightarrow> (\<exists>r. TxApply 0 r \<in> set tr))
          \<and> (res = Done \<longrightarrow> (\<forall>i. 0 \<le> i \<and> i < int (length ups) \<longrightarrow> TxApply i None \<in> set tr))))"
proof (intro conjI impI)
  show "(\<exists>err d'. getVersion E d = (Inl err, d')) \<longleftrightarrow> create_version_fault E \<noteq> None"
    by (auto simp: getVersion_def Let_def split: option.splits)
next
  let ?d0 = "create_table_if_not_exists whatsmeow_version d"
  assume a: "create_version_fault E = None
        \<and> (query_version_fault E \<noteq> None \<or> scan_version ?d0 = None)"
  then show gv: "getVersion E d = (Inr 0, ?d0)"
    by (auto simp: getVersion_def Let_def split: option.splits)
  then show up: "Upgrade E ups d = upgrade_loop E ups 0 ?d0"
    by (simp add: Upgrade_def)
  show "\<forall>res d' tr. Upgrade E ups d = (res, d', tr) \<longrightarrow>
            (tr \<noteq> [] \<longrightarrow> (\<exists>r. hd tr = TxBegin 0 r))
          \<and> (ups \<noteq> [] \<and> begin_fault E 0 = None \<longrightarrow> (\<exists>r. TxApply 0 r \<in> set tr))
          \<and> (res = Done \<longrightarrow> (\<forall>i. 0 \<le> i \<and> i < int (length ups) \<longrightarrow> TxApply i None \<in> set tr))"
  proof (intro allI impI)
    fix res d' tr
    assume "Upgrade E ups d = (res, d', tr)"
    with up have l: "upgrade_loop E ups 0 ?d0 = (res, d', tr)" by simp
    have h: "tr \<noteq> [] \<longrightarrow> (\<exists>r. hd tr = TxBegin 0 r)"
      using loop_head [OF l] by blast
    have s: "\<exists>r. TxApply 0 r \<in> set tr" if "ups \<noteq> []" "begin_fault E 0 = None"
      using l that by (cases rule: loop_cases) auto
    have e: "TxApply i None \<in> set tr" if "res = Done" "0 \<le> i" "i < int (length ups)" for i
    proof -
      from loop_commits [OF l] that have "\<exists>s. TxCommit i (Inr s) \<in> set tr" by auto
      then obtain s where "TxCommit i (Inr s) \<in> set tr" by blast
      from loop_block [OF l this] show ?thesis by auto
    qed
    from h s e show "(tr \<noteq> [] \<longrightarrow> (\<exists>r. hd tr = TxBegin 0 r))
          \<and> (ups \<noteq> [] \<and> begin_fault E 0 = None \<longrightarrow> (\<exists>r. TxApply 0 r \<in> set tr))
          \<and> (res = Done \<longrightarrow> (\<forall>i. 0 \<le> i \<and> i < int (length ups) \<longrightarrow> TxApply i None \<in> set tr))"
      by blast
  qed
qed

theorem getVersion_drops_scan_error_witness:
  "scan_version migrated_db = Some 1
   \<and> getVersion query_fails migrated_db = (Inr 0, migrated_db)
   \<and> Upgrade query_fails Upgrades migrated_db =
       (Error ''relation already exists'', migrated_db,
        [TxBegin 0 None, TxApply 0 (Some ''relation already exists''), TxRollback 0])"
proof -
  have e: "create_version_fault query_fails = None" "query_version_fault query_fails \<noteq> None"
    "begin_fault query_fails 0 = None" "exec_fault query_fails 0 = None"
    by (simp_all add: query_fails_def no_faults_def)
  have ex: "create_table_if_not_exists whatsmeow_version migrated_db = migrated_db"
    by (simp add: create_table_if_not_exists_def migrated_names schema_names_def
        whatsmeow_version_def)
  have step: "upgrade_v1 query_fails migrated_db = Inl ''relation already exists''"
    by (simp add: upgrade_v1_def tx_Exec_create_def e create_table_def migrated_names
        schema_names_def whatsmeow_device_def)
  have loop: "upgrade_loop query_fails Upgrades 0 migrated_db =
      (Error ''relation already exists'', migrated_db,
        [TxBegin 0 None, TxApply 0 (Some ''relation already exists''), TxRollback 0])"
    by (simp add: upgrade_loop.simps Upgrades_def e step)
  show ?thesis
    using getVersion_drops_scan_error [of query_fails migrated_db Upgrades] e ex loop
      migrated_version
    by simp
qed

subsection \<open>Length checks of the schema\<close>

lemma length_checked_column:
  "(c, n) \<in> set (length_checked td) \<Longrightarrow>
     \<exists>cl \<in> set (td_columns td). col_name cl = c \<and> col_check cl = Some (LengthEq n)"
  by (auto simp: length_checked_def split: option.splits check_expr.splits)

lemma col_complete_row':
  "c \<in> set (map col_name (td_columns td)) \<Longrightarrow> map_of r c = Some v \<Longrightarrow>
   col (complete_row td r) c = v"
  using col_complete_row [of c "td_columns td" r v "td_name td" "td_primary_key td" "td_foreign_keys td"]
  by simp

lemma wrong_length_not_ok:
  assumes "(c, n) \<in> set (length_checked td)" "map_of r c = Some (VBytes b)" "length b \<noteq> n"
  shows "\<not> row_ok td (complete_row td r)"
proof -
  from length_checked_column [OF assms(1)] obtain cl where
    cl: "cl \<in> set (td_columns td)" "col_name cl = c" "col_check cl = Some (LengthEq n)" by blast
  then have "c \<in> set (map col_name (td_columns td))" by force
  from col_complete_row' [OF this assms(2)] have "col (complete_row td r) c = VBytes b" .
  with cl assms(3) have "\<not> column_ok td (complete_row td r) cl"
    by (simp add: column_ok_def check_holds_def)
  with cl(1) show ?thesis by (auto simp: row_ok_def list_all_iff)
qed

text \<open>Claim C8, as stated, fails for the adv secret: the column \<^verbatim>\<open>adv_key\<close> is declared
  \<^verbatim>\<open>bytea NOT NULL\<close> with no length check (line 29), and a device row with a 3-byte adv
  key passes the column constraints and is inserted into the database that \<^verbatim>\<open>Upgrade\<close>
  makes of the empty one.\<close>
theorem adv_key_length_unchecked_counterexample:
  "map_of (device_row ''carol'' (replicate 32 1) [1, 2, 3]) ''adv_key'' = Some (VBytes [1, 2, 3])
   \<and> row_ok whatsmeow_device
        (complete_row whatsmeow_device (device_row ''carol'' (replicate 32 1) [1, 2, 3]))
   \<and> \<not> isl (insert_row ''whatsmeow_device'' (device_row ''carol'' (replicate 32 1) [1, 2, 3])
               (fst (snd (Upgrade no_faults Upgrades empty_db))))"
proof -
  have "map_of (device_row ''carol'' (replicate 32 1) [1, 2, 3]) ''adv_key'' = Some (VBytes [1, 2, 3])"
    by code_simp
  moreover have "\<not> isl (insert_row ''whatsmeow_device''
      (device_row ''carol'' (replicate 32 1) [1, 2, 3]) migrated_db)"
    using short_adv_row migrated_device_table
    by (simp add: insert_row_def Let_def)
  ultimately show ?thesis using short_adv_row(2) by (simp add: migrated_db_def)
qed

text \<open>Claim C8, amended. The columns of the schema with a length check are the noise key,
  identity key, signed prekey (32) and the three signatures (64) of the device, the
  trusted identity (32), the prekey (32), the app-state hash (128) and the index and
  value MACs (32), and no others. For each of them, a row that gives the column a byte
  string of another length violates the constraints of its table, and inserting it into
  a database that holds the table is rejected.\<close>
theorem length_checks_reject_wrong_size:
  "map (\<lambda>td. (td_name td, length_checked td)) all_tables =
     [(''whatsmeow_version'', []),
      (''whatsmeow_device'',
         [(''noise_key'', 32), (''identity_key'', 32), (''signed_pre_key'', 32),
          (''signed_pre_key_sig'', 64), (''adv_account_sig'', 64), (''adv_device_sig'', 64)]),
      (''whatsmeow_identity_keys'', [(''identity'', 32)]),
      (''whatsmeow_pre_keys'', [(''key'', 32)]),
      (''whatsmeow_sessions'', []),
      (''whatsmeow_sender_keys'', []),
      (''whatsmeow_app_state_sync_keys'', []),
      (''whatsmeow_app_state_version'', [(''hash'', 128)]),
      (''whatsmeow_app_state_mutation_macs'', [(''index_mac'', 32), (''value_mac'', 32)]),
      (''whatsmeow_contacts'', []),
      (''whatsmeow_chat_settings'', [])]
   \<and> (\<forall>td \<in> set all_tables. \<forall>(c, n) \<in> set (length_checked td). \<forall>r b d.
         map_of r c = Some (VBytes b) \<and> length b \<noteq> n \<longrightarrow>
           \<not> row_ok td (complete_row td r)
         \<and> (def_of d (td_name td) = Some td \<longrightarrow>
              insert_row (td_name td) r d = Inl ''violates check or not-null constraint''
              \<or> insert_row (td_name td) r d = Inl ''column does not exist''))"
proof (intro conjI ballI)
  show "map (\<lambda>td. (td_name td, length_checked td)) all_tables =
     [(''whatsmeow_version'', []),
      (''whatsmeow_device'',
         [(''noise_key'', 32), (''identity_key'', 32), (''signed_pre_key'', 32),
          (''signed_pre_key_sig'', 64), (''adv_account_sig'', 64), (''adv_device_sig'', 64)]),
      (''whatsmeow_identity_keys'', [(''identity'', 32)]),
      (''whatsmeow_pre_keys'', [(''key'', 32)]),
      (''whatsmeow_sessions'', []),
      (''whatsmeow_sender_keys'', []),
      (''whatsmeow_app_state_sync_keys'', []),
      (''whatsmeow_app_state_version'', [(''hash'', 128)]),
      (''whatsmeow_app_state_mutation_macs'', [(''index_mac'', 32), (''value_mac'', 32)]),
      (''whatsmeow_contacts'', []),
      (''whatsmeow_chat_settings'', [])]"
    by (simp add: all_tables_def length_checked_def schema_defs)
next
  fix td cn
  assume "td \<in> set all_tables" and cn: "cn \<in> set (length_checked td)"
  obtain c n where [simp]: "cn = (c, n)" by (cases cn)
  have "\<not> row_ok td (complete_row td r)
         \<and> (def_of d (td_name td) = Some td \<longrightarrow>
              insert_row (td_name td) r d = Inl ''violates check or not-null constraint''
              \<or> insert_row (td_name td) r d = Inl ''column does not exist'')"
    if "map_of r c = Some (VBytes b)" "length b \<noteq> n" for r b d
  proof -
    from cn that have no: "\<not> row_ok td (complete_row td r)"
      using wrong_length_not_ok [of c n td r b] by simp
    then show ?thesis
      by (auto simp: insert_row_def def_of_def Let_def split: if_splits)
  qed
  then show "case cn of (c, n) \<Rightarrow> \<forall>r b d.
         map_of r c = Some (VBytes b) \<and> length b \<noteq> n \<longrightarrow>
           \<not> row_ok td (complete_row td r)
         \<and> (def_of d (td_name td) = Some td \<longrightarrow>
              insert_row (td_name td) r d = Inl ''violates check or not-null constraint''
              \<or> insert_row (td_name td) r d = Inl ''column does not exist'')"
    by simp blast
qed

theorem length_checks_reject_wrong_size_witness:
  "map_of (device_row ''carol'' (replicate 31 1) (replicate 32 8)) ''noise_key''
     = Some (VBytes (replicate 31 1))
   \<and> \<not> row_ok whatsmeow_device
         (complete_row whatsmeow_device (device_row ''carol'' (replicate 31 1) (replicate 32 8)))
   \<and> isl (insert_row ''whatsmeow_device'' (device_row ''carol'' (replicate 31 1) (replicate 32 8))
        populated_db)"
proof -
  have t: "whatsmeow_device \<in> set all_tables"
    by (simp add: all_tables_def)
  have c: "(''noise_key'', 32) \<in> set (length_checked whatsmeow_device)"
    by (simp add: length_checked_def whatsmeow_device_def)
  have m: "map_of (device_row ''carol'' (replicate 31 1) (replicate 32 8)) ''noise_key''
     = Some (VBytes (replicate 31 1))"
    by (simp add: device_row_def)
  have l: "length (replicate 31 (1 :: byte)) \<noteq> 32" by simp
  have d: "def_of populated_db (td_name whatsmeow_device) = Some whatsmeow_device"
    by code_simp
  have nm: "td_name whatsmeow_device = ''whatsmeow_device''"
    by (simp add: whatsmeow_device_def)
  from length_checks_reject_wrong_size t c
  have "\<forall>r b d. map_of r ''noise_key'' = Some (VBytes b) \<and> length b \<noteq> 32 \<longrightarrow>
           \<not> row_ok whatsmeow_device (complete_row whatsmeow_device r)
         \<and> (def_of d (td_name whatsmeow_device) = Some whatsmeow_device \<longrightarrow>
              insert_row (td_name whatsmeow_device) r d = Inl ''violates check or not-null constraint''
              \<or> insert_row (td_name whatsmeow_device) r d = Inl ''column does not exist'')"
    by blast
  with m l d have "\<not> row_ok whatsmeow_device
         (complete_row whatsmeow_device (device_row ''carol'' (replicate 31 1) (replicate 32 8)))
     \<and> (insert_row (td_name whatsmeow_device) (device_row ''carol'' (replicate 31 1) (replicate 32 8))
          populated_db = Inl ''violates check or not-null constraint''
        \<or> insert_row (td_name whatsmeow_device) (device_row ''carol'' (replicate 31 1) (replicate 32 8))
          populated_db = Inl ''column does not exist'')"
    by blast
  with m show ?thesis unfolding nm by auto
qed

subsection \<open>Deleting a device\<close>

lemma installed_names:
  "installed d \<Longrightarrow> c \<in> set (names d) \<longleftrightarrow> c \<in> set schema_names"
  by (simp add: installed_def all_tables_def schema_names_def schema_defs)

lemma installed_defs:
  assumes "installed d"
  shows "t_def (table_of d ''whatsmeow_version'') = whatsmeow_version"
    "t_def (table_of d ''whatsmeow_device'') = whatsmeow_device"
    "t_def (table_of d ''whatsmeow_identity_keys'') = whatsmeow_identity_keys"
    "t_def (table_of d ''whatsmeow_pre_keys'') = whatsmeow_pre_keys"
    "t_def (table_of d ''whatsmeow_sessions'') = whatsmeow_sessions"
    "t_def (table_of d ''whatsmeow_sender_keys'') = whatsmeow_sender_keys"
    "t_def (table_of d ''whatsmeow_app_state_sync_keys'') = whatsmeow_app_state_sync_keys"
    "t_def (table_of d ''whatsmeow_app_state_version'') = whatsmeow_app_state_version"
    "t_def (table_of d ''whatsmeow_app_state_mutation_macs'') = whatsmeow_app_state_mutation_macs"
    "t_def (table_of d ''whatsmeow_contacts'') = whatsmeow_contacts"
    "t_def (table_of d ''whatsmeow_chat_settings'') = whatsmeow_chat_settings"
  using assms
  by (simp_all add: installed_def all_tables_def)
     (simp_all add: schema_defs)

lemma installed_ball:
  assumes "installed d"
  shows "(\<forall>c \<in> set (names d). Q c (t_def (table_of d c)))
         \<longleftrightarrow> (\<forall>td \<in> set all_tables. Q (td_name td) td)"
proof -
  from assms have n: "set (names d) = td_name ` set all_tables"
    and t: "\<forall>td \<in> set all_tables. t_def (table_of d (td_name td)) = td"
    by (simp_all add: installed_def list_all_iff)
  show ?thesis unfolding n using t by auto
qed

lemma schema_all_cascade:
  "\<forall>td \<in> set all_tables. \<forall>fk \<in> set (td_foreign_keys td). fk_on_delete fk = Cascade"
  by (simp add: all_tables_def schema_defs)

lemma installed_cascade:
  assumes "installed d"
  shows "\<forall>c \<in> set (names d). \<forall>fk \<in> set (td_foreign_keys (t_def (table_of d c))).
             fk_on_delete fk = Cascade"
  using schema_all_cascade
    installed_ball [OF assms, of "\<lambda>c td. \<forall>fk \<in> set (td_foreign_keys td). fk_on_delete fk = Cascade"]
  by simp

lemma not_blocked_if_cascade:
  assumes "\<forall>c \<in> set (names d). \<forall>fk \<in> set (td_foreign_keys (t_def (table_of d c))).
             fk_on_delete fk = Cascade"
  shows "\<not> blocked d n P"
proof
  assume "blocked d n P"
  then obtain c r fk p where c: "c \<in> set (names d)" and r: "r \<in> set (rows_of d c)"
    and nd: "\<not> dead d n P c r" and fk: "fk \<in> set (td_foreign_keys (t_def (table_of d c)))"
    and p: "dead d n P (fk_table fk) p" and ref: "references fk r p"
    unfolding blocked_def by blast
  from assms c fk have "fk_on_delete fk = Cascade" by blast
  moreover from p have "p \<in> set (rows_of d (fk_table fk))" by (rule dead_is_row)
  ultimately have "dead d n P c r" using p r fk ref
    by (intro dead.cascade [of r d c fk p "fk_table fk" n P]) auto
  with nd show False by simp
qed

lemma dead_child:
  assumes "r \<in> set (rows_of d c)"
      and "fk \<in> set (td_foreign_keys (t_def (table_of d c)))"
      and "fk_on_delete fk = Cascade"
      and "fk_ok d fk r" and "Null \<notin> set (key_values (fk_cols fk) r)"
      and "\<And>p. p \<in> set (rows_of d (fk_table fk)) \<Longrightarrow> references fk r p
              \<Longrightarrow> dead d n P (fk_table fk) p"
  shows "dead d n P c r"
proof -
  from assms(4,5) obtain p where p: "p \<in> set (rows_of d (fk_table fk))" "references fk r p"
    by (auto simp: fk_ok_def list_ex_iff)
  from assms(6) [OF p] have "dead d n P (fk_table fk) p" .
  with assms(1,2,3) p show ?thesis
    by (intro dead.cascade [of r d c fk p "fk_table fk" n P]) auto
qed

lemma consistent_row:
  assumes "consistent d" "r \<in> set (rows_of d c)"
  shows "row_ok (t_def (table_of d c)) r"
    and "\<forall>fk \<in> set (td_foreign_keys (t_def (table_of d c))). fk_ok d fk r"
proof -
  from assms(2) have "c \<in> set (names d)" by (auto simp: rows_of_def split: if_splits)
  with assms show "row_ok (t_def (table_of d c)) r"
    and "\<forall>fk \<in> set (td_foreign_keys (t_def (table_of d c))). fk_ok d fk r"
    by (auto simp: consistent_def list_all_iff)
qed

lemma device_child_dead:
  assumes "consistent d" "r \<in> set (rows_of d c)"
      and "ForeignKey [k] ''whatsmeow_device'' [''jid''] Cascade
             \<in> set (td_foreign_keys (t_def (table_of d c)))"
      and "col r k = VText j"
  shows "dead d ''whatsmeow_device'' (\<lambda>r. col r ''jid'' = VText j) c r"
proof (rule dead_child [OF assms(2) assms(3)])
  show "fk_on_delete (ForeignKey [k] ''whatsmeow_device'' [''jid''] Cascade) = Cascade"
    by simp
  show "fk_ok d (ForeignKey [k] ''whatsmeow_device'' [''jid''] Cascade) r"
    using consistent_row(2) [OF assms(1,2)] assms(3) by blast
  show "Null \<notin> set (key_values (fk_cols (ForeignKey [k] ''whatsmeow_device'' [''jid''] Cascade)) r)"
    using assms(4) by (simp add: key_values_def)
next
  fix p
  assume p: "p \<in> set (rows_of d (fk_table (ForeignKey [k] ''whatsmeow_device'' [''jid''] Cascade)))"
    and ref: "references (ForeignKey [k] ''whatsmeow_device'' [''jid''] Cascade) r p"
  from ref assms(4) have "col p ''jid'' = VText j"
    by (simp add: references_def key_values_def)
  with p show "dead d ''whatsmeow_device'' (\<lambda>r. col r ''jid'' = VText j)
      (fk_table (ForeignKey [k] ''whatsmeow_device'' [''jid''] Cascade)) p"
    by (auto intro: dead.target)
qed

lemma mutation_mac_dead:
  assumes "installed d" "consistent d"
      and "r \<in> set (rows_of d ''whatsmeow_app_state_mutation_macs'')"
      and "col r ''jid'' = VText j"
  shows "dead d ''whatsmeow_device'' (\<lambda>r. col r ''jid'' = VText j)
           ''whatsmeow_app_state_mutation_macs'' r"
proof -
  let ?fk = "ForeignKey [''jid'', ''name''] ''whatsmeow_app_state_version'' [''jid'', ''name''] Cascade"
  note defs = installed_defs [OF assms(1)]
  have fk: "?fk \<in> set (td_foreign_keys (t_def (table_of d ''whatsmeow_app_state_mutation_macs'')))"
    by (simp add: defs whatsmeow_app_state_mutation_macs_def)
  have "row_ok whatsmeow_app_state_mutation_macs r"
    using consistent_row(1) [OF assms(2,3)] defs by simp
  then have name: "col r ''name'' \<noteq> Null"
    by (simp add: row_ok_def column_ok_def whatsmeow_app_state_mutation_macs_def)
  show ?thesis
  proof (rule dead_child [OF assms(3) fk])
    show "fk_on_delete ?fk = Cascade" by simp
    show "fk_ok d ?fk r"
      using consistent_row(2) [OF assms(2,3)] fk by blast
    show "Null \<notin> set (key_values (fk_cols ?fk) r)"
      using assms(4) name by (auto simp: key_values_def)
  next
    fix p
    assume p: "p \<in> set (rows_of d (fk_table ?fk))" and ref: "references ?fk r p"
    from ref assms(4) have pj: "col p ''jid'' = VText j"
      by (simp add: references_def key_values_def)
    from p have p': "p \<in> set (rows_of d ''whatsmeow_app_state_version'')" by simp
    have "ForeignKey [''jid''] ''whatsmeow_device'' [''jid''] Cascade
             \<in> set (td_foreign_keys (t_def (table_of d ''whatsmeow_app_state_version'')))"
      by (simp add: defs whatsmeow_app_state_version_def)
    from device_child_dead [OF assms(2) p' this pj]
    show "dead d ''whatsmeow_device'' (\<lambda>r. col r ''jid'' = VText j) (fk_table ?fk) p"
      by simp
  qed
qed

lemma device_key_dependent: "list_all (\<lambda>(t, k). device_key t = k) dependent_tables"
  by (simp add: device_key_def dependent_tables_def)

lemma schema_key_flow:
  "\<forall>td \<in> set all_tables. \<forall>fk \<in> set (td_foreign_keys td). \<forall>r p.
      references fk r p \<and> col p (device_key (fk_table fk)) = VText j
        \<longrightarrow> col r (device_key (td_name td)) = VText j"
  by (simp add: all_tables_def schema_defs references_def key_values_def device_key_def
      dependent_tables_def) auto

lemma dead_key:
  assumes "installed d"
  shows "dead d ''whatsmeow_device'' (\<lambda>r. col r ''jid'' = VText j) c r
         \<Longrightarrow> col r (device_key c) = VText j"
proof (induction rule: dead.induct)
  case (target r)
  then show ?case by (simp add: device_key_def dependent_tables_def)
next
  case (cascade r c fk p m)
  from cascade.hyps(1) have c: "c \<in> set (names d)"
    by (auto simp: rows_of_def split: if_splits)
  from schema_key_flow [of j]
    installed_ball [OF assms, of "\<lambda>c td. \<forall>fk \<in> set (td_foreign_keys td). \<forall>r p.
      references fk r p \<and> col p (device_key (fk_table fk)) = VText j
        \<longrightarrow> col r (device_key c) = VText j"]
  have "\<forall>c \<in> set (names d). \<forall>fk \<in> set (td_foreign_keys (t_def (table_of d c))). \<forall>r p.
      references fk r p \<and> col p (device_key (fk_table fk)) = VText j
        \<longrightarrow> col r (device_key c) = VText j"
    by simp
  with c cascade.hyps(2) cascade.hyps(5) cascade.hyps(6) cascade.IH show ?case by blast
qed

text \<open>Claim C9. In a database that holds the schema and whose rows satisfy its
  constraints (as they do in every database built by the statements above), deleting the device with address \<open>j\<close> succeeds and leaves no row with that
  address in the device table nor in any of the nine dependent tables (the mutation
  MACs go through the app-state version they reference); the rows of other devices
  stay.\<close>
theorem delete_device_cascades:
  assumes "installed d" and "consistent d"
  shows "\<exists>d'. delete_device j d = Inr d'
          \<and> (\<forall>r \<in> set (rows_of d' ''whatsmeow_device''). col r ''jid'' \<noteq> VText j)
          \<and> (\<forall>(t, k) \<in> set dependent_tables.
                \<forall>r \<in> set (rows_of d' t). col r k \<noteq> VText j)
          \<and> (\<forall>r \<in> set (rows_of d ''whatsmeow_device'').
                col r ''jid'' \<noteq> VText j \<longrightarrow> r \<in> set (rows_of d' ''whatsmeow_device''))
          \<and> (\<forall>(t, k) \<in> set dependent_tables.
                \<forall>r \<in> set (rows_of d t). col r k \<noteq> VText j \<longrightarrow> r \<in> set (rows_of d' t))"
proof -
  let ?P = "\<lambda>r. col r ''jid'' = VText j"
  let ?n = "''whatsmeow_device''"
  let ?d' = "remove_dead d ?n ?P"
  note defs = installed_defs [OF assms(1)]
  have "?n \<in> set (names d)"
    using installed_names [OF assms(1)] by (simp add: schema_names_def)
  moreover have "\<not> blocked d ?n ?P"
    using not_blocked_if_cascade [OF installed_cascade [OF assms(1)]] .
  ultimately have del: "delete_device j d = Inr ?d'"
    by (simp add: delete_device_def delete_where_def)
  then have rows: "rows_of ?d' c = filter (\<lambda>r. \<not> dead d ?n ?P c r) (rows_of d c)" for c
    using delete_where_rows [of ?n ?P d ?d'] by (simp add: delete_device_def)
  have dev: "\<forall>r \<in> set (rows_of ?d' ?n). col r ''jid'' \<noteq> VText j"
    unfolding rows by (auto intro: dead.target)
  have child: "\<forall>r \<in> set (rows_of ?d' c). col r k \<noteq> VText j"
    if "ForeignKey [k] ''whatsmeow_device'' [''jid''] Cascade
             \<in> set (td_foreign_keys (t_def (table_of d c)))" for c k
    unfolding rows using device_child_dead [OF assms(2) _ that] by auto
  have macs: "\<forall>r \<in> set (rows_of ?d' ''whatsmeow_app_state_mutation_macs''). col r ''jid'' \<noteq> VText j"
    unfolding rows using mutation_mac_dead [OF assms] by auto
  have c1: "\<forall>r \<in> set (rows_of ?d' ''whatsmeow_identity_keys''). col r ''our_jid'' \<noteq> VText j"
    by (rule child) (simp add: defs whatsmeow_identity_keys_def)
  have c2: "\<forall>r \<in> set (rows_of ?d' ''whatsmeow_pre_keys''). col r ''jid'' \<noteq> VText j"
    by (rule child) (simp add: defs whatsmeow_pre_keys_def)
  have c3: "\<forall>r \<in> set (rows_of ?d' ''whatsmeow_sessions''). col r ''our_jid'' \<noteq> VText j"
    by (rule child) (simp add: defs whatsmeow_sessions_def)
  have c4: "\<forall>r \<in> set (rows_of ?d' ''whatsmeow_sender_keys''). col r ''our_jid'' \<noteq> VText j"
    by (rule child) (simp add: defs whatsmeow_sender_keys_def)
  have c5: "\<forall>r \<in> set (rows_of ?d' ''whatsmeow_app_state_sync_keys''). col r ''jid'' \<noteq> VText j"
    by (rule child) (simp add: defs whatsmeow_app_state_sync_keys_def)
  have c6: "\<forall>r \<in> set (rows_of ?d' ''whatsmeow_app_state_version''). col r ''jid'' \<noteq> VText j"
    by (rule child) (simp add: defs whatsmeow_app_state_version_def)
  have c8: "\<forall>r \<in> set (rows_of ?d' ''whatsmeow_contacts''). col r ''our_jid'' \<noteq> VText j"
    by (rule child) (simp add: defs whatsmeow_contacts_def)
  have c9: "\<forall>r \<in> set (rows_of ?d' ''whatsmeow_chat_settings''). col r ''our_jid'' \<noteq> VText j"
    by (rule child) (simp add: defs whatsmeow_chat_settings_def)
  have "list_all (\<lambda>(t, k). \<forall>r \<in> set (rows_of ?d' t). col r k \<noteq> VText j) dependent_tables"
    unfolding dependent_tables_def list.pred_inject prod.case
    by (intro conjI c1 c2 c3 c4 c5 c6 macs c8 c9) simp
  then have gone: "\<forall>(t, k) \<in> set dependent_tables. \<forall>r \<in> set (rows_of ?d' t). col r k \<noteq> VText j"
    by (simp only: list_all_iff)
  have kept_dev: "\<forall>r \<in> set (rows_of d ?n). col r ''jid'' \<noteq> VText j \<longrightarrow> r \<in> set (rows_of ?d' ?n)"
    unfolding rows using dead_key [OF assms(1), of j ?n]
    by (auto simp: device_key_def dependent_tables_def)
  have kept: "\<forall>(t, k) \<in> set dependent_tables.
                \<forall>r \<in> set (rows_of d t). col r k \<noteq> VText j \<longrightarrow> r \<in> set (rows_of ?d' t)"
  proof (clarify)
    fix t k r
    assume tk: "(t, k) \<in> set dependent_tables" and r: "r \<in> set (rows_of d t)"
      and ne: "col r k \<noteq> VText j"
    from device_key_dependent tk have "device_key t = k"
      by (auto simp: list_all_iff)
    with dead_key [OF assms(1), of j t r] ne have "\<not> dead d ?n ?P t r" by auto
    with r show "r \<in> set (rows_of ?d' t)" unfolding rows by simp
  qed
  from del dev gone kept_dev kept show ?thesis by blast
qed

theorem delete_device_cascades_witness:
  "installed migrated_db \<and> installed populated_db \<and> consistent populated_db
   \<and> [(''our_jid'', VText ''alice''), (''their_id'', VText ''carol''), (''session'', VBytes [1])]
        \<in> set (rows_of populated_db ''whatsmeow_sessions'')
   \<and> (\<exists>d'. delete_device ''alice'' populated_db = Inr d'
          \<and> (\<forall>r \<in> set (rows_of d' ''whatsmeow_sessions''). col r ''our_jid'' \<noteq> VText ''alice'')
          \<and> (\<forall>r \<in> set (rows_of d' ''whatsmeow_app_state_mutation_macs'').
                col r ''jid'' \<noteq> VText ''alice'')
          \<and> [(''our_jid'', VText ''bob''), (''their_id'', VText ''carol''), (''session'', VBytes [2])]
               \<in> set (rows_of d' ''whatsmeow_sessions''))"
proof -
  have m: "(''whatsmeow_sessions'', ''our_jid'') \<in> set dependent_tables"
    "(''whatsmeow_app_state_mutation_macs'', ''jid'') \<in> set dependent_tables"
    by (simp_all add: dependent_tables_def)
  have r: "[(''our_jid'', VText ''alice''), (''their_id'', VText ''carol''), (''session'', VBytes [1])]
        \<in> set (rows_of populated_db ''whatsmeow_sessions'')"
    "[(''our_jid'', VText ''bob''), (''their_id'', VText ''carol''), (''session'', VBytes [2])]
        \<in> set (rows_of populated_db ''whatsmeow_sessions'')"
    by code_simp+
  have b: "col [(''our_jid'', VText ''bob''), (''their_id'', VText ''carol''), (''session'', VBytes [2])]
             ''our_jid'' \<noteq> VText ''alice''"
    by code_simp
  from delete_device_cascades [OF populated_installed populated_consistent, of "''alice''"]
  obtain d' where d: "delete_device ''alice'' populated_db = Inr d'"
    and a: "\<forall>(t, k) \<in> set dependent_tables. \<forall>r \<in> set (rows_of d' t). col r k \<noteq> VText ''alice''"
    and k: "\<forall>(t, k) \<in> set dependent_tables. \<forall>r \<in> set (rows_of populated_db t).
               col r k \<noteq> VText ''alice'' \<longrightarrow> r \<in> set (rows_of d' t)"
    by blast
  from a m have "(\<forall>r \<in> set (rows_of d' ''whatsmeow_sessions''). col r ''our_jid'' \<noteq> VText ''alice'')
          \<and> (\<forall>r \<in> set (rows_of d' ''whatsmeow_app_state_mutation_macs'').
                col r ''jid'' \<noteq> VText ''alice'')"
    by blast
  moreover from k m(1) r(2) b
  have "[(''our_jid'', VText ''bob''), (''their_id'', VText ''carol''), (''session'', VBytes [2])]
               \<in> set (rows_of d' ''whatsmeow_sessions'')"
    by blast
  ultimately show ?thesis
    using d r(1) populated_installed populated_consistent migrated_installed by blast
qed


end

